theory Spec2Isabelle
  imports Main
begin

section \<open>The transaction planner and executor of app/flatpak-transaction.c\<close>

text \<open>
  The theory embeds \<^verbatim>\<open>app/flatpak-transaction.c\<close>. The C code keeps every planned
  operation as one heap object that is shared by the hash table \<^verbatim>\<open>refs\<close> and by the
  list \<^verbatim>\<open>ops\<close>, and it mutates these objects through either pointer. The model
  therefore has an explicit store: \<open>heap\<close> is the list of all allocated operations, an
  address is an index into it, \<open>refs\<close> maps a ref to an address and \<open>ops\<close> is the list
  of addresses, newest first, as \<^verbatim>\<open>g_list_prepend\<close> builds it.

  Diagnostic output (\<^verbatim>\<open>g_debug\<close>, \<^verbatim>\<open>g_print\<close>, \<^verbatim>\<open>g_printerr\<close>) is not
  represented. The \<^verbatim>\<open>GError **error\<close> out-parameter is a value of its own in every
  result, next to the \<^verbatim>\<open>gboolean\<close> that the function returns, since the source
  does not always keep the two in step.
\<close>

subsection \<open>Errors\<close>

datatype error_code =
    FLATPAK_ERROR_ALREADY_INSTALLED
  | FLATPAK_ERROR_NOT_INSTALLED
  | G_IO_ERROR_FAILED
  | OTHER_ERROR nat

datatype gerror = GError error_code string

fun g_error_matches :: "gerror \<Rightarrow> error_code \<Rightarrow> bool" where
  "g_error_matches (GError c m) code = (c = code)"

text \<open>
  Modelled from the spec: \<^verbatim>\<open>flatpak_fail\<close> lives in flatpak-utils.c, which is not part
  of the sources at hand. It raises a generic failure that carries the formatted message
  (the kinds \<open>MissingRuntime\<close> and "One or more operations failed" of the specification)
  and returns \<^verbatim>\<open>FALSE\<close>.
\<close>

definition flatpak_fail :: "string \<Rightarrow> gerror" where
  "flatpak_fail msg = GError G_IO_ERROR_FAILED msg"

text \<open>
  \<^verbatim>\<open>pref = strchr (ref, '/') + 1\<close>: the text after the first slash. It is used in
  messages only. The source relies on every ref holding a slash; for a ref without one
  the definition below gives the empty string.
\<close>

definition pref_of :: "string \<Rightarrow> string" where
  "pref_of ref = tl (dropWhile (\<lambda>c. c \<noteq> CHR ''/'') ref)"

subsection \<open>Operations and the transaction\<close>

text \<open>
  \<^verbatim>\<open>char **subpaths\<close> has three meanings: \<open>None\<close> is the null pointer (keep what is
  deployed), \<open>Some []\<close> is the empty vector (all subpaths), and \<open>Some (x # xs)\<close> is an
  explicit restriction.
\<close>

type_synonym subpaths = "string list option"

record FlatpakTransactionOp =
  op_remote :: string
  op_ref :: string
  op_subpaths :: subpaths
  op_commit :: "string option"
  op_update :: bool
  op_install :: bool
  op_non_fatal :: bool

record FlatpakTransaction =
  heap :: "FlatpakTransactionOp list"
  refs :: "string \<Rightarrow> nat option"
  ops :: "nat list"
  no_pull :: bool
  no_deploy :: bool
  add_deps_enabled :: bool
  add_related_enabled :: bool

subsection \<open>The collaborators\<close>

text \<open>
  \<^verbatim>\<open>FlatpakDir\<close>, the catalog, the key-file parser and the prompts are declared in
  headers that are not part of the sources at hand; they are parameters. The type \<open>'d\<close>
  is the state of an installation directory. The planner only reads it; the deploy
  engine (\<^verbatim>\<open>flatpak_dir_install\<close>, \<^verbatim>\<open>flatpak_dir_update\<close>) returns a new one together
  with \<open>None\<close> for success or the error it raised. A prompt answers as a function of the
  question that is asked.
\<close>

record deploy_data =
  deploy_origin :: string
  deploy_commit :: string

record FlatpakRelated =
  rel_ref :: string
  rel_subpaths :: subpaths
  rel_download :: bool

record 'd collaborators =
  flatpak_dir_get_if_deployed :: "'d \<Rightarrow> string \<Rightarrow> bool"
  flatpak_dir_get_deploy_data :: "'d \<Rightarrow> string \<Rightarrow> deploy_data option"
  flatpak_dir_is_user :: "'d \<Rightarrow> bool"
  flatpak_dir_get_system :: "'d"
  flatpak_dir_get_remote_disabled :: "'d \<Rightarrow> string \<Rightarrow> bool"
  flatpak_dir_fetch_ref_cache :: "'d \<Rightarrow> string \<Rightarrow> string \<Rightarrow> string option"
  key_file_runtime :: "string \<Rightarrow> string option"
  flatpak_dir_find_local_related :: "'d \<Rightarrow> string \<Rightarrow> string \<Rightarrow> FlatpakRelated list option"
  flatpak_dir_find_remote_related :: "'d \<Rightarrow> string \<Rightarrow> string \<Rightarrow> FlatpakRelated list option"
  flatpak_dir_search_for_dependency :: "'d \<Rightarrow> string \<Rightarrow> string list option"
  flatpak_yes_no_prompt :: "string \<Rightarrow> bool"
  flatpak_number_prompt :: "int \<Rightarrow> int \<Rightarrow> int"
  flatpak_dir_install ::
    "'d \<Rightarrow> bool \<Rightarrow> bool \<Rightarrow> string \<Rightarrow> string \<Rightarrow> subpaths \<Rightarrow> gerror option \<times> 'd"
  flatpak_dir_update ::
    "'d \<Rightarrow> bool \<Rightarrow> bool \<Rightarrow> string \<Rightarrow> string \<Rightarrow> string option \<Rightarrow> subpaths
      \<Rightarrow> gerror option \<times> 'd"

subsection \<open>Deploy-state queries\<close>

definition ref_is_installed :: "'d collaborators \<Rightarrow> 'd \<Rightarrow> string \<Rightarrow> bool" where
  "ref_is_installed env dir ref =
     (if flatpak_dir_get_if_deployed env dir ref then True
      else if flatpak_dir_is_user env dir
        then (if flatpak_dir_get_if_deployed env (flatpak_dir_get_system env) ref then True
              else False)
      else False)"

text \<open>
  \<^verbatim>\<open>dir_ref_is_installed\<close> returns a boolean and stores the origin through
  \<^verbatim>\<open>remote_out\<close>; the model returns the origin, \<open>None\<close> standing for \<^verbatim>\<open>FALSE\<close>.
\<close>

definition dir_ref_is_installed :: "'d collaborators \<Rightarrow> 'd \<Rightarrow> string \<Rightarrow> string option" where
  "dir_ref_is_installed env dir ref =
     (case flatpak_dir_get_deploy_data env dir ref of
        None \<Rightarrow> None
      | Some deploy \<Rightarrow> Some (deploy_origin deploy))"

text \<open>
  \<^verbatim>\<open>g_key_file_load_from_data\<close> followed by \<^verbatim>\<open>g_key_file_get_string\<close> for the key
  \<^verbatim>\<open>runtime\<close> of the group \<^verbatim>\<open>Application\<close> is the one parameter \<open>key_file_runtime\<close>.
\<close>

definition transaction_fetch_runtime_ref ::
  "'d collaborators \<Rightarrow> 'd \<Rightarrow> string \<Rightarrow> string \<Rightarrow> string option" where
  "transaction_fetch_runtime_ref env dir remote ref =
     (if take 4 ref \<noteq> ''app/'' then None
      else case flatpak_dir_fetch_ref_cache env dir remote ref of
             None \<Rightarrow> None
           | Some metadata \<Rightarrow> key_file_runtime env metadata)"

subsection \<open>The operation table\<close>

definition flatpak_transaction_operation_new ::
  "string \<Rightarrow> string \<Rightarrow> subpaths \<Rightarrow> string option \<Rightarrow> bool \<Rightarrow> bool \<Rightarrow> FlatpakTransactionOp" where
  "flatpak_transaction_operation_new remote ref subpaths commit install update =
     \<lparr>op_remote = remote, op_ref = ref, op_subpaths = subpaths, op_commit = commit,
      op_update = update, op_install = install, op_non_fatal = False\<rparr>"

definition flatpak_transaction_new ::
  "bool \<Rightarrow> bool \<Rightarrow> bool \<Rightarrow> bool \<Rightarrow> FlatpakTransaction" where
  "flatpak_transaction_new no_pull' no_deploy' add_deps' add_related' =
     \<lparr>heap = [], refs = (\<lambda>r. None), ops = [],
      no_pull = no_pull', no_deploy = no_deploy',
      add_deps_enabled = add_deps', add_related_enabled = add_related'\<rparr>"

definition flatpak_transaction_contains_ref :: "FlatpakTransaction \<Rightarrow> string \<Rightarrow> bool" where
  "flatpak_transaction_contains_ref self ref = (refs self ref \<noteq> None)"

text \<open>
  \<^verbatim>\<open>flatpak_transaction_add_op\<close> returns the address of the operation and the updated
  transaction. A new operation is allocated at the end of the store.
\<close>

definition flatpak_transaction_add_op ::
  "FlatpakTransaction \<Rightarrow> string \<Rightarrow> string \<Rightarrow> subpaths \<Rightarrow> string option \<Rightarrow> bool \<Rightarrow> bool
    \<Rightarrow> nat \<times> FlatpakTransaction" where
  "flatpak_transaction_add_op self remote ref subpaths commit install update =
     (case refs self ref of
        Some p \<Rightarrow>
          (let op = heap self ! p in
           if op_subpaths op \<noteq> None \<and> op_subpaths op \<noteq> Some [] \<and> subpaths \<noteq> None
           then (p, self\<lparr>heap := (heap self)[p := op\<lparr>op_subpaths := subpaths\<rparr>]\<rparr>)
           else (p, self))
      | None \<Rightarrow>
          (let p = length (heap self);
               op = flatpak_transaction_operation_new remote ref subpaths commit install update
           in (p, self\<lparr>heap := heap self @ [op],
                       refs := (refs self)(ref \<mapsto> p),
                       ops := p # ops self\<rparr>)))"

subsection \<open>The expander\<close>

text \<open>
  \<^verbatim>\<open>flatpak_number_prompt\<close> answers within the bounds it is given. Were the answer
  outside them, the C code would read \<^verbatim>\<open>remotes[chosen-1]\<close> out of bounds; the model
  gives \<open>None\<close> there.
\<close>

definition ask_for_remote :: "'d collaborators \<Rightarrow> string list \<Rightarrow> string option" where
  "ask_for_remote env remotes =
     (let n_remotes = int (length remotes);
          chosen = (if n_remotes = 1
                    then (if flatpak_yes_no_prompt env (remotes ! 0) then 1 else 0)
                    else flatpak_number_prompt env 0 n_remotes)
      in if chosen = 0 then None
         else if 1 \<le> chosen \<and> chosen \<le> n_remotes then Some (remotes ! nat (chosen - 1))
         else None)"

fun add_related_loop ::
  "FlatpakTransaction \<Rightarrow> string \<Rightarrow> FlatpakRelated list \<Rightarrow> FlatpakTransaction" where
  "add_related_loop self remote [] = self"
| "add_related_loop self remote (rel # related) =
     (if \<not> rel_download rel then add_related_loop self remote related
      else (let (p, self1) = flatpak_transaction_add_op self remote (rel_ref rel)
                               (rel_subpaths rel) None True True;
                self2 = self1\<lparr>heap := (heap self1)[p := (heap self1 ! p)\<lparr>op_non_fatal := True\<rparr>]\<rparr>
            in add_related_loop self2 remote related))"

text \<open>
  \<^verbatim>\<open>add_related\<close> never touches its \<^verbatim>\<open>error\<close> parameter and always returns
  \<^verbatim>\<open>TRUE\<close>: a failing lookup only prints a warning.
\<close>

definition add_related ::
  "'d collaborators \<Rightarrow> 'd \<Rightarrow> FlatpakTransaction \<Rightarrow> string \<Rightarrow> string
    \<Rightarrow> bool \<times> FlatpakTransaction" where
  "add_related env dir self remote ref =
     (if \<not> add_related_enabled self then (True, self)
      else (case (if no_pull self then flatpak_dir_find_local_related env dir ref remote
                  else flatpak_dir_find_remote_related env dir ref remote) of
              None \<Rightarrow> (True, self)
            | Some related \<Rightarrow> (True, add_related_loop self remote related)))"

text \<open>
  \<^verbatim>\<open>add_deps\<close> returns the boolean, the error it stored (if any) and the transaction.
\<close>

definition add_deps ::
  "'d collaborators \<Rightarrow> 'd \<Rightarrow> FlatpakTransaction \<Rightarrow> string \<Rightarrow> string
    \<Rightarrow> bool \<times> gerror option \<times> FlatpakTransaction" where
  "add_deps env dir self remote ref =
     (case transaction_fetch_runtime_ref env dir remote ref of
        None \<Rightarrow> (True, None, self)
      | Some runtime_ref \<Rightarrow>
          (let pref = pref_of ref;
               full_runtime_ref = ''runtime/'' @ runtime_ref;
               searched =
                 (if \<not> flatpak_transaction_contains_ref self full_runtime_ref
                  then (if \<not> ref_is_installed env dir full_runtime_ref
                        then (let remotes = flatpak_dir_search_for_dependency env dir
                                              full_runtime_ref;
                                  runtime_remote =
                                    (case remotes of
                                       None \<Rightarrow> None
                                     | Some [] \<Rightarrow> None
                                     | Some (r # rs) \<Rightarrow> ask_for_remote env (r # rs))
                              in case runtime_remote of
                                   None \<Rightarrow>
                                     Inl (False,
                                          Some (flatpak_fail (''The Application '' @ pref @
                                                  '' requires the runtime '' @ runtime_ref @
                                                  '' which is not installed'')),
                                          self)
                                 | Some rr \<Rightarrow>
                                     Inr (Some rr,
                                          snd (flatpak_transaction_add_op self rr
                                                 full_runtime_ref None None True True)))
                        else (case dir_ref_is_installed env dir full_runtime_ref of
                                Some rr \<Rightarrow>
                                  Inr (Some rr,
                                       snd (flatpak_transaction_add_op self rr
                                              full_runtime_ref None None False True))
                              | None \<Rightarrow> Inr (None, self)))
                  else Inr (None, self))
           in case searched of
                Inl failed \<Rightarrow> failed
              | Inr (None, self1) \<Rightarrow> (True, None, self1)
              | Inr (Some rr, self1) \<Rightarrow>
                  (let (res, self2) = add_related env dir self1 rr full_runtime_ref
                   in if \<not> res then (False, None, self2) else (True, None, self2))))"

subsection \<open>Request intake\<close>

text \<open>
  The result of an intake function is \<open>None\<close> when \<^verbatim>\<open>g_assert (remote != NULL)\<close> aborts
  the process, and otherwise the returned boolean, the content of \<^verbatim>\<open>*error\<close> and the
  transaction. The value that \<^verbatim>\<open>add_deps\<close> returns is dropped by the source; what it
  stored in \<^verbatim>\<open>*error\<close> stays there. \<^verbatim>\<open>flatpak_transaction_add_install_oci\<close> is
  not embedded: all it does before it enters \<^verbatim>\<open>flatpak_transaction_add_ref\<close> as an
  install is registry and catalog work.
\<close>

definition flatpak_transaction_add_ref ::
  "'d collaborators \<Rightarrow> 'd \<Rightarrow> FlatpakTransaction \<Rightarrow> string option \<Rightarrow> string \<Rightarrow> subpaths
    \<Rightarrow> string option \<Rightarrow> bool \<Rightarrow> (bool \<times> gerror option \<times> FlatpakTransaction) option" where
  "flatpak_transaction_add_ref env dir self remote ref subpaths commit is_update =
     (let pref = pref_of ref;
          checked =
            (if is_update
             then (case dir_ref_is_installed env dir ref of
                     None \<Rightarrow>
                       Inl (Some (False,
                                  Some (GError FLATPAK_ERROR_NOT_INSTALLED (pref @ '' not installed'')),
                                  self))
                   | Some origin \<Rightarrow>
                       if flatpak_dir_get_remote_disabled env dir origin
                       then Inl (Some (True, None, self))
                       else Inr origin)
             else (case remote of
                     None \<Rightarrow> Inl None
                   | Some remote' \<Rightarrow>
                       if dir_ref_is_installed env dir ref \<noteq> None
                       then Inl (Some (False,
                                       Some (GError FLATPAK_ERROR_ALREADY_INSTALLED
                                               (pref @ '' already installed'')),
                                       self))
                       else Inr remote'))
      in case checked of
           Inl early \<Rightarrow> early
         | Inr remote' \<Rightarrow>
             (let (deps_res, error, self1) =
                    (if add_deps_enabled self then add_deps env dir self remote' ref
                     else (True, None, self));
                  (p, self2) = flatpak_transaction_add_op self1 remote' ref subpaths commit
                                 (\<not> is_update) is_update;
                  (res, self3) = add_related env dir self2 remote' ref
              in if \<not> res then Some (False, error, self3)
                 else Some (True, error, self3)))"

definition flatpak_transaction_add_install ::
  "'d collaborators \<Rightarrow> 'd \<Rightarrow> FlatpakTransaction \<Rightarrow> string option \<Rightarrow> string \<Rightarrow> subpaths
    \<Rightarrow> (bool \<times> gerror option \<times> FlatpakTransaction) option" where
  "flatpak_transaction_add_install env dir self remote ref subpaths =
     (let all_paths = Some [];
          subpaths' = (if subpaths = None then all_paths else subpaths)
      in flatpak_transaction_add_ref env dir self remote ref subpaths' None False)"

definition flatpak_transaction_add_update ::
  "'d collaborators \<Rightarrow> 'd \<Rightarrow> FlatpakTransaction \<Rightarrow> string \<Rightarrow> subpaths \<Rightarrow> string option
    \<Rightarrow> (bool \<times> gerror option \<times> FlatpakTransaction) option" where
  "flatpak_transaction_add_update env dir self ref subpaths commit =
     flatpak_transaction_add_ref env dir self None ref subpaths commit True"

subsection \<open>The executor\<close>

text \<open>
  The flag resolution at the head of the loop body of \<^verbatim>\<open>flatpak_transaction_run\<close>:
  an operation that carries both flags keeps the one that fits the deploy state of
  the moment.
\<close>

definition resolve_flags ::
  "'d collaborators \<Rightarrow> 'd \<Rightarrow> FlatpakTransactionOp \<Rightarrow> FlatpakTransactionOp" where
  "resolve_flags env dir op =
     (if op_install op \<and> op_update op
      then (if dir_ref_is_installed env dir (op_ref op) \<noteq> None
            then op\<lparr>op_install := False\<rparr>
            else op\<lparr>op_update := False\<rparr>)
      else op)"

text \<open>
  The call of the deploy engine for one operation, with the recovery of an update that
  had nothing to do: the result is what \<^verbatim>\<open>res\<close> and \<^verbatim>\<open>local_error\<close> hold when the
  loop body reaches \<^verbatim>\<open>if (!res)\<close>. An operation with neither flag set takes the
  update branch, as in the source. Reading the new commit after an update serves a
  message only and is left out.
\<close>

definition dispatch ::
  "'d collaborators \<Rightarrow> FlatpakTransaction \<Rightarrow> 'd \<Rightarrow> FlatpakTransactionOp
    \<Rightarrow> gerror option \<times> 'd" where
  "dispatch env self dir op =
     (if op_install op
      then flatpak_dir_install env dir (no_pull self) (no_deploy self)
             (op_ref op) (op_remote op) (op_subpaths op)
      else (case flatpak_dir_update env dir (no_pull self) (no_deploy self)
                   (op_ref op) (op_remote op) (op_commit op) (op_subpaths op) of
              (None, dir1) \<Rightarrow> (None, dir1)
            | (Some local_error, dir1) \<Rightarrow>
                if g_error_matches local_error FLATPAK_ERROR_ALREADY_INSTALLED
                then (None, dir1)
                else (Some local_error, dir1)))"

text \<open>
  The result of a run: the returned boolean, the content of \<^verbatim>\<open>*error\<close>, the
  directory and the transaction as the run leaves them. The field \<open>run_failed\<close> is a
  trace that the source does not keep: the addresses of the operations for which
  \<^verbatim>\<open>if (!res)\<close> was entered, in order.
\<close>

record 'd run_result =
  run_ok :: bool
  run_error :: "gerror option"
  run_dir :: "'d"
  run_self :: FlatpakTransaction
  run_failed :: "nat list"

fun run_loop ::
  "'d collaborators \<Rightarrow> bool \<Rightarrow> nat list \<Rightarrow> FlatpakTransaction \<Rightarrow> 'd \<Rightarrow> bool
    \<Rightarrow> gerror option \<Rightarrow> nat list \<Rightarrow> 'd run_result" where
  "run_loop env stop_on_first_error [] self dir succeeded error failed =
     \<lparr>run_ok = succeeded, run_error = error, run_dir = dir, run_self = self,
      run_failed = failed\<rparr>"
| "run_loop env stop_on_first_error (l # next) self dir succeeded error failed =
     (let op = resolve_flags env dir (heap self ! l);
          self1 = self\<lparr>heap := (heap self)[l := op]\<rparr>;
          (res, dir1) = dispatch env self1 dir op
      in case res of
           None \<Rightarrow> run_loop env stop_on_first_error next self1 dir1 succeeded error failed
         | Some local_error \<Rightarrow>
             if op_non_fatal op
             then run_loop env stop_on_first_error next self1 dir1 succeeded error
                    (failed @ [l])
             else if \<not> stop_on_first_error
             then run_loop env stop_on_first_error next self1 dir1 False
                    (if succeeded then Some (flatpak_fail ''One or more operations failed'')
                     else error)
                    (failed @ [l])
             else \<lparr>run_ok = False, run_error = Some local_error, run_dir = dir1,
                   run_self = self1, run_failed = failed @ [l]\<rparr>)"

definition flatpak_transaction_run ::
  "'d collaborators \<Rightarrow> FlatpakTransaction \<Rightarrow> 'd \<Rightarrow> bool \<Rightarrow> 'd run_result" where
  "flatpak_transaction_run env self dir stop_on_first_error =
     (let self1 = self\<lparr>ops := rev (ops self)\<rparr>
      in run_loop env stop_on_first_error (ops self1) self1 dir True None [])"

subsection \<open>Well-formed transactions\<close>

text \<open>
  What the C data structure guarantees by construction: the list \<open>ops\<close> holds every
  allocated operation exactly once, newest first (an address is the position in the
  order of allocation), the table maps the ref of every operation to the address of
  that operation, and the table has no other keys.
\<close>

definition wf_transaction :: "FlatpakTransaction \<Rightarrow> bool" where
  "wf_transaction self \<longleftrightarrow>
     ops self = rev [0..<length (heap self)] \<and>
     (\<forall>p<length (heap self). refs self (op_ref (heap self ! p)) = Some p) \<and>
     dom (refs self) = op_ref ` set (heap self)"


text \<open>
  The remote that \<^verbatim>\<open>flatpak_transaction_add_ref\<close> works with once its precondition
  has passed, and the transaction as its dependency pass leaves it: two names for
  intermediate values of that function, used to state properties of it.
\<close>

definition resolved_remote ::
  "'d collaborators \<Rightarrow> 'd \<Rightarrow> string option \<Rightarrow> string \<Rightarrow> bool \<Rightarrow> string" where
  "resolved_remote env dir remote ref is_update =
     (if is_update then the (dir_ref_is_installed env dir ref) else the remote)"

definition after_deps ::
  "'d collaborators \<Rightarrow> 'd \<Rightarrow> FlatpakTransaction \<Rightarrow> string option \<Rightarrow> string \<Rightarrow> bool
    \<Rightarrow> FlatpakTransaction" where
  "after_deps env dir self remote ref is_update =
     (if add_deps_enabled self
      then snd (snd (add_deps env dir self (resolved_remote env dir remote ref is_update) ref))
      else self)"

text \<open>
  A sequence of calls of \<^verbatim>\<open>flatpak_transaction_add_op\<close>, given by their argument
  lists (remote, ref, subpaths, commit, install, update), and the subpaths that the calls
  for one ref passed, in order.
\<close>

type_synonym add_op_args = "string \<times> string \<times> subpaths \<times> string option \<times> bool \<times> bool"

definition add_ops :: "FlatpakTransaction \<Rightarrow> add_op_args list \<Rightarrow> FlatpakTransaction" where
  "add_ops self calls =
     foldl (\<lambda>t (remote, ref, subpaths, commit, install, update).
              snd (flatpak_transaction_add_op t remote ref subpaths commit install update))
       self calls"

definition subpaths_passed :: "string \<Rightarrow> add_op_args list \<Rightarrow> subpaths list" where
  "subpaths_passed ref calls =
     map (\<lambda>(remote, r, subpaths, rest). subpaths)
       (filter (\<lambda>(remote, r, rest). r = ref) calls)"

subsection \<open>Concrete installations\<close>

text \<open>
  A small family of collaborators for evaluating the functions on concrete requests.
  An installation directory is its scope and the list of deployed refs with their
  origins. The metadata of an app is abbreviated to the value of its runtime key.
\<close>

record dir_state =
  is_user_dir :: bool
  deployed :: "(string \<times> string) list"

definition scenario ::
  "(string \<times> string) list \<Rightarrow> string list \<Rightarrow> (string \<times> string) list
    \<Rightarrow> (string \<times> FlatpakRelated list) list \<Rightarrow> string list \<Rightarrow> bool \<Rightarrow> int \<Rightarrow> string list
    \<Rightarrow> dir_state collaborators" where
  "scenario system_deployed disabled metadata related remotes yes number failing =
     \<lparr>flatpak_dir_get_if_deployed = (\<lambda>d ref. map_of (deployed d) ref \<noteq> None),
      flatpak_dir_get_deploy_data =
        (\<lambda>d ref. map_option
           (\<lambda>origin. \<lparr>deploy_origin = origin, deploy_commit = ''0123456789abcdef''\<rparr>)
           (map_of (deployed d) ref)),
      flatpak_dir_is_user = is_user_dir,
      flatpak_dir_get_system = \<lparr>is_user_dir = False, deployed = system_deployed\<rparr>,
      flatpak_dir_get_remote_disabled = (\<lambda>d remote. remote \<in> set disabled),
      flatpak_dir_fetch_ref_cache = (\<lambda>d remote ref. map_of metadata ref),
      key_file_runtime = (\<lambda>md. if md = [] then None else Some md),
      flatpak_dir_find_local_related = (\<lambda>d ref remote. map_of related ref),
      flatpak_dir_find_remote_related = (\<lambda>d ref remote. map_of related ref),
      flatpak_dir_search_for_dependency = (\<lambda>d ref. Some remotes),
      flatpak_yes_no_prompt = (\<lambda>remote. yes),
      flatpak_number_prompt = (\<lambda>lo hi. number),
      flatpak_dir_install =
        (\<lambda>d np nd ref remote sp.
           if ref \<in> set failing then (Some (GError (OTHER_ERROR 1) ''install failed''), d)
           else (None, d\<lparr>deployed := (ref, remote) # deployed d\<rparr>)),
      flatpak_dir_update =
        (\<lambda>d np nd ref remote commit sp.
           if ref \<in> set failing then (Some (GError (OTHER_ERROR 2) ''update failed''), d)
           else (None, d))\<rparr>"

definition user_dir :: "(string \<times> string) list \<Rightarrow> dir_state" where
  "user_dir refs_with_origin = \<lparr>is_user_dir = True, deployed = refs_with_origin\<rparr>"

definition app_X :: string where "app_X = ''app/com.X/x86_64/stable''"

definition runtime_Y :: string where "runtime_Y = ''runtime/org.Y/x86_64/stable''"

definition locale_X :: string where "locale_X = ''runtime/com.X.Locale/x86_64/stable''"

definition planner :: FlatpakTransaction where
  "planner = flatpak_transaction_new False False True True"

definition locale_rel :: FlatpakRelated where
  "locale_rel = \<lparr>rel_ref = locale_X, rel_subpaths = Some [''/de''], rel_download = True\<rparr>"

definition install_with_runtime :: "string list \<Rightarrow> dir_state collaborators" where
  "install_with_runtime failing =
     scenario [] [] [(app_X, ''org.Y/x86_64/stable'')] [(app_X, [locale_rel])] [''origin'']
       True 0 failing"

definition ambiguous_runtime :: "dir_state collaborators" where
  "ambiguous_runtime =
     scenario [] [] [(app_X, ''org.Y/x86_64/stable'')] [] [''a'', ''b'', ''c''] True 0 []"

definition system_has_app :: "dir_state collaborators" where
  "system_has_app = scenario [(app_X, ''origin'')] [] [] [] [] True 0 []"

definition origin_disabled :: "dir_state collaborators" where
  "origin_disabled = scenario [] [''origin''] [] [] [] True 0 []"

definition runtime_op :: FlatpakTransactionOp where
  "runtime_op = \<lparr>op_remote = ''origin'', op_ref = runtime_Y, op_subpaths = None,
                  op_commit = None, op_update = True, op_install = True, op_non_fatal = False\<rparr>"

definition app_op :: FlatpakTransactionOp where
  "app_op = \<lparr>op_remote = ''origin'', op_ref = app_X, op_subpaths = Some [],
              op_commit = None, op_update = False, op_install = True, op_non_fatal = False\<rparr>"

definition locale_op :: FlatpakTransactionOp where
  "locale_op = \<lparr>op_remote = ''origin'', op_ref = locale_X, op_subpaths = Some [''/de''],
                 op_commit = None, op_update = True, op_install = True, op_non_fatal = True\<rparr>"

definition planned_app_only :: FlatpakTransaction where
  "planned_app_only = planner\<lparr>heap := [app_op], refs := (refs planner)(app_X \<mapsto> 0), ops := [0]\<rparr>"

definition planned :: FlatpakTransaction where
  "planned = planner\<lparr>heap := [runtime_op, app_op, locale_op],
                     refs := (refs planner)(runtime_Y \<mapsto> 0, app_X \<mapsto> 1, locale_X \<mapsto> 2),
                     ops := [2, 1, 0]\<rparr>"



definition locale_direct_op :: FlatpakTransactionOp where
  "locale_direct_op = \<lparr>op_remote = ''origin'', op_ref = locale_X, op_subpaths = Some [],
                        op_commit = None, op_update = False, op_install = True,
                        op_non_fatal = False\<rparr>"

definition planned_locale_direct :: FlatpakTransaction where
  "planned_locale_direct =
     planner\<lparr>heap := [locale_direct_op], refs := (refs planner)(locale_X \<mapsto> 0), ops := [0]\<rparr>"

definition planned_locale_related :: FlatpakTransaction where
  "planned_locale_related =
     planner\<lparr>heap := [locale_direct_op\<lparr>op_non_fatal := True\<rparr>],
             refs := (refs planner)(locale_X \<mapsto> 0), ops := [0]\<rparr>"

definition explicit_then_all :: "add_op_args list" where
  "explicit_then_all =
     [(''origin'', locale_X, Some [''/de''], None, True, True),
      (''origin'', app_X, Some [], None, True, False),
      (''origin'', locale_X, None, None, True, True),
      (''origin'', locale_X, Some [''/fr''], None, True, True)]"

definition inherit_then_all :: "add_op_args list" where
  "inherit_then_all =
     [(''origin'', runtime_Y, None, None, True, True),
      (''origin'', runtime_Y, Some [], None, True, False)]"




section \<open>The planner as a sequence of calls to the operation table\<close>

text \<open>
  Everything the planner does to a transaction is a sequence of calls of
  \<^verbatim>\<open>flatpak_transaction_add_op\<close>, some of them followed by the assignment
  \<^verbatim>\<open>op->non_fatal = TRUE\<close> of the related pass. The definitions of this section
  are devices for the proofs: a \<open>call\<close> is the argument list of one such call with
  the flag that tells whether the assignment follows, \<open>apply_call\<close> performs it on the
  transaction, and \<open>upsert\<close> is its effect on the store of a well-formed transaction.
\<close>

record call =
  c_remote :: string
  c_ref :: string
  c_subpaths :: subpaths
  c_commit :: "string option"
  c_install :: bool
  c_update :: bool
  c_non_fatal :: bool

definition apply_call :: "FlatpakTransaction \<Rightarrow> call \<Rightarrow> FlatpakTransaction" where
  "apply_call self c =
     (let (p, self1) = flatpak_transaction_add_op self (c_remote c) (c_ref c) (c_subpaths c)
                         (c_commit c) (c_install c) (c_update c)
      in if c_non_fatal c
         then self1\<lparr>heap := (heap self1)[p := (heap self1 ! p)\<lparr>op_non_fatal := True\<rparr>]\<rparr>
         else self1)"

definition apply_calls :: "FlatpakTransaction \<Rightarrow> call list \<Rightarrow> FlatpakTransaction" where
  "apply_calls self cs = foldl apply_call self cs"

definition op_call :: "string \<Rightarrow> string \<Rightarrow> subpaths \<Rightarrow> string option \<Rightarrow> bool \<Rightarrow> bool \<Rightarrow> call" where
  "op_call remote ref subpaths commit install update =
     \<lparr>c_remote = remote, c_ref = ref, c_subpaths = subpaths, c_commit = commit,
      c_install = install, c_update = update, c_non_fatal = False\<rparr>"

definition args_call :: "add_op_args \<Rightarrow> call" where
  "args_call = (\<lambda>(remote, ref, subpaths, commit, install, update).
                  op_call remote ref subpaths commit install update)"

text \<open>The merge rule for subpaths, lines 245 to 249 of the source, as a function.\<close>

definition merge_subpaths :: "subpaths \<Rightarrow> subpaths \<Rightarrow> subpaths" where
  "merge_subpaths cur inc = (if cur \<noteq> None \<and> cur \<noteq> Some [] \<and> inc \<noteq> None then inc else cur)"

definition merge_op :: "FlatpakTransactionOp \<Rightarrow> call \<Rightarrow> FlatpakTransactionOp" where
  "merge_op op c = op\<lparr>op_subpaths := merge_subpaths (op_subpaths op) (c_subpaths c),
                      op_non_fatal := (op_non_fatal op \<or> c_non_fatal c)\<rparr>"

definition create_op :: "call \<Rightarrow> FlatpakTransactionOp" where
  "create_op c = (flatpak_transaction_operation_new (c_remote c) (c_ref c) (c_subpaths c)
                    (c_commit c) (c_install c) (c_update c))\<lparr>op_non_fatal := c_non_fatal c\<rparr>"

definition upsert :: "FlatpakTransactionOp list \<Rightarrow> call \<Rightarrow> FlatpakTransactionOp list" where
  "upsert h c =
     (if c_ref c \<in> op_ref ` set h
      then map (\<lambda>op. if op_ref op = c_ref c then merge_op op c else op) h
      else h @ [create_op c])"

text \<open>
  The calls that \<^verbatim>\<open>add_related\<close>, \<^verbatim>\<open>add_deps\<close> and the part of
  \<^verbatim>\<open>flatpak_transaction_add_ref\<close> after its precondition make, read off the
  collaborators. \<open>proceeds\<close> is the condition under which the precondition passes,
  with the remote that the function then works with.
\<close>

definition related_calls :: "string \<Rightarrow> FlatpakRelated list \<Rightarrow> call list" where
  "related_calls remote related =
     map (\<lambda>rel. \<lparr>c_remote = remote, c_ref = rel_ref rel, c_subpaths = rel_subpaths rel,
                  c_commit = None, c_install = True, c_update = True, c_non_fatal = True\<rparr>)
       (filter rel_download related)"

definition add_related_calls ::
  "'d collaborators \<Rightarrow> 'd \<Rightarrow> FlatpakTransaction \<Rightarrow> string \<Rightarrow> string \<Rightarrow> call list" where
  "add_related_calls env dir self remote ref =
     (if \<not> add_related_enabled self then []
      else (case (if no_pull self then flatpak_dir_find_local_related env dir ref remote
                  else flatpak_dir_find_remote_related env dir ref remote) of
              None \<Rightarrow> []
            | Some related \<Rightarrow> related_calls remote related))"

definition runtime_remote_choice :: "'d collaborators \<Rightarrow> 'd \<Rightarrow> string \<Rightarrow> string option" where
  "runtime_remote_choice env dir full_runtime_ref =
     (if \<not> ref_is_installed env dir full_runtime_ref
      then (case flatpak_dir_search_for_dependency env dir full_runtime_ref of
              None \<Rightarrow> None
            | Some [] \<Rightarrow> None
            | Some (r # rs) \<Rightarrow> ask_for_remote env (r # rs))
      else dir_ref_is_installed env dir full_runtime_ref)"

definition deps_calls ::
  "'d collaborators \<Rightarrow> 'd \<Rightarrow> FlatpakTransaction \<Rightarrow> string \<Rightarrow> string \<Rightarrow> call list" where
  "deps_calls env dir self remote ref =
     (case transaction_fetch_runtime_ref env dir remote ref of
        None \<Rightarrow> []
      | Some runtime_ref \<Rightarrow>
          (let full_runtime_ref = ''runtime/'' @ runtime_ref
           in if refs self full_runtime_ref \<noteq> None then []
              else (case runtime_remote_choice env dir full_runtime_ref of
                      None \<Rightarrow> []
                    | Some rr \<Rightarrow>
                        op_call rr full_runtime_ref None None
                          (\<not> ref_is_installed env dir full_runtime_ref) True
                        # add_related_calls env dir self rr full_runtime_ref)))"

definition ref_calls ::
  "'d collaborators \<Rightarrow> 'd \<Rightarrow> FlatpakTransaction \<Rightarrow> string \<Rightarrow> string \<Rightarrow> subpaths
    \<Rightarrow> string option \<Rightarrow> bool \<Rightarrow> call list" where
  "ref_calls env dir self rm ref sp commit is_update =
     (if add_deps_enabled self then deps_calls env dir self rm ref else []) @
     op_call rm ref sp commit (\<not> is_update) is_update #
     add_related_calls env dir self rm ref"

definition proceeds ::
  "'d collaborators \<Rightarrow> 'd \<Rightarrow> string option \<Rightarrow> string \<Rightarrow> bool \<Rightarrow> string \<Rightarrow> bool" where
  "proceeds env dir remote ref is_update rm \<longleftrightarrow>
     (if is_update
      then dir_ref_is_installed env dir ref = Some rm \<and>
           \<not> flatpak_dir_get_remote_disabled env dir rm
      else remote = Some rm \<and> dir_ref_is_installed env dir ref = None)"

section \<open>Lemmas\<close>

subsection \<open>The table of a well-formed transaction\<close>

lemma wf_refs_Some:
  assumes "wf_transaction t" "refs t r = Some p"
  shows "p < length (heap t) \<and> op_ref (heap t ! p) = r"
proof -
  from assms have "r \<in> op_ref ` set (heap t)"
    unfolding wf_transaction_def by (metis domI)
  then obtain q where q: "q < length (heap t)" "op_ref (heap t ! q) = r"
    by (auto simp: in_set_conv_nth)
  with assms have "refs t r = Some q" unfolding wf_transaction_def by blast
  with assms q show ?thesis by simp
qed

lemma wf_refs_None:
  assumes "wf_transaction t" "refs t r = None"
  shows "r \<notin> op_ref ` set (heap t)"
  using assms unfolding wf_transaction_def by (metis domIff)

lemma wf_refs_nth:
  "wf_transaction t \<Longrightarrow> p < length (heap t) \<Longrightarrow> refs t (op_ref (heap t ! p)) = Some p"
  unfolding wf_transaction_def by blast

lemma wf_eqI:
  assumes "wf_transaction t" "wf_transaction t'" "heap t = heap t'"
    "no_pull t = no_pull t'" "no_deploy t = no_deploy t'"
    "add_deps_enabled t = add_deps_enabled t'" "add_related_enabled t = add_related_enabled t'"
  shows "t = t'"
proof -
  have "refs t r = refs t' r" for r
  proof (cases "refs t r")
    case None
    with assms(1) have "r \<notin> op_ref ` set (heap t)" by (rule wf_refs_None)
    with assms(2,3) have "refs t' r = None" unfolding wf_transaction_def by (metis domIff)
    with None show ?thesis by simp
  next
    case (Some p)
    with assms(1) have "p < length (heap t) \<and> op_ref (heap t ! p) = r" by (rule wf_refs_Some)
    with assms(2,3) have "refs t' r = Some p" using wf_refs_nth by metis
    with Some show ?thesis by simp
  qed
  then have "refs t = refs t'" by (rule ext)
  moreover have "ops t = ops t'" using assms(1,2,3) unfolding wf_transaction_def by simp
  ultimately show ?thesis using assms by simp
qed

lemma update_unique_map:
  assumes "wf_transaction t" "refs t r = Some p"
  shows "(heap t)[p := f (heap t ! p)] = map (\<lambda>op. if op_ref op = r then f op else op) (heap t)"
proof (rule nth_equalityI)
  show "length ((heap t)[p := f (heap t ! p)]) = length (map (\<lambda>op. if op_ref op = r then f op else op) (heap t))"
    by simp
next
  fix i assume "i < length ((heap t)[p := f (heap t ! p)])"
  then have i: "i < length (heap t)" by simp
  from assms have p: "p < length (heap t)" "op_ref (heap t ! p) = r" using wf_refs_Some by blast+
  show "(heap t)[p := f (heap t ! p)] ! i = map (\<lambda>op. if op_ref op = r then f op else op) (heap t) ! i"
  proof (cases "i = p")
    case True
    with p show ?thesis by simp
  next
    case False
    have "op_ref (heap t ! i) \<noteq> r"
    proof
      assume "op_ref (heap t ! i) = r"
      with assms(1) i have "refs t r = Some i" using wf_refs_nth by blast
      with assms(2) False show False by simp
    qed
    with False i show ?thesis by simp
  qed
qed

subsection \<open>One call\<close>

lemma apply_call_flags [simp]:
  "no_pull (apply_call t c) = no_pull t"
  "no_deploy (apply_call t c) = no_deploy t"
  "add_deps_enabled (apply_call t c) = add_deps_enabled t"
  "add_related_enabled (apply_call t c) = add_related_enabled t"
  by (simp_all add: apply_call_def flatpak_transaction_add_op_def Let_def split: option.splits)

lemma add_op_existing:
  assumes "refs t r = Some p"
  shows "flatpak_transaction_add_op t remote r sp commit i u =
           (p, t\<lparr>heap := (heap t)[p := (heap t ! p)\<lparr>op_subpaths :=
                   merge_subpaths (op_subpaths (heap t ! p)) sp\<rparr>]\<rparr>)"
proof (cases "op_subpaths (heap t ! p) \<noteq> None \<and> op_subpaths (heap t ! p) \<noteq> Some [] \<and> sp \<noteq> None")
  case True
  with assms show ?thesis
    by (simp add: flatpak_transaction_add_op_def Let_def merge_subpaths_def)
next
  case False
  then have "merge_subpaths (op_subpaths (heap t ! p)) sp = op_subpaths (heap t ! p)"
    by (auto simp: merge_subpaths_def)
  moreover from False assms have "flatpak_transaction_add_op t remote r sp commit i u = (p, t)"
    by (auto simp add: flatpak_transaction_add_op_def Let_def)
  ultimately show ?thesis by simp
qed

lemma add_op_fresh:
  assumes "refs t r = None"
  shows "flatpak_transaction_add_op t remote r sp commit i u =
           (length (heap t),
            t\<lparr>heap := heap t @ [flatpak_transaction_operation_new remote r sp commit i u],
              refs := (refs t)(r \<mapsto> length (heap t)),
              ops := length (heap t) # ops t\<rparr>)"
  using assms by (simp add: flatpak_transaction_add_op_def Let_def)

lemma apply_call_existing:
  assumes "refs t (c_ref c) = Some p"
  shows "apply_call t c = t\<lparr>heap := (heap t)[p := merge_op (heap t ! p) c]\<rparr>"
proof (cases "p < length (heap t)")
  case True
  then show ?thesis
    by (simp add: apply_call_def add_op_existing [OF assms] merge_op_def)
next
  case False
  then show ?thesis
    by (simp add: apply_call_def add_op_existing [OF assms] merge_op_def list_update_beyond)
qed

lemma apply_call_fresh:
  assumes "refs t (c_ref c) = None"
  shows "apply_call t c = t\<lparr>heap := heap t @ [create_op c],
              refs := (refs t)(c_ref c \<mapsto> length (heap t)),
              ops := length (heap t) # ops t\<rparr>"
  by (simp add: apply_call_def add_op_fresh [OF assms] create_op_def
      flatpak_transaction_operation_new_def)

lemma apply_call_heap:
  assumes "wf_transaction t"
  shows "heap (apply_call t c) = upsert (heap t) c"
proof (cases "refs t (c_ref c)")
  case None
  with assms have "c_ref c \<notin> op_ref ` set (heap t)" by (rule wf_refs_None)
  with None show ?thesis
    by (simp add: apply_call_fresh upsert_def)
next
  case (Some p)
  with assms have p: "p < length (heap t)" "op_ref (heap t ! p) = c_ref c"
    using wf_refs_Some by blast+
  then have mem: "c_ref c \<in> op_ref ` set (heap t)" by (metis imageI nth_mem)
  have "heap (apply_call t c) = (heap t)[p := merge_op (heap t ! p) c]"
    by (simp add: apply_call_existing [OF Some])
  also have "\<dots> = map (\<lambda>op. if op_ref op = c_ref c then merge_op op c else op) (heap t)"
    using update_unique_map [OF assms Some, of "\<lambda>op. merge_op op c"] .
  finally show ?thesis using mem by (simp add: upsert_def)
qed

lemma merge_op_ref [simp]: "op_ref (merge_op op c) = op_ref op"
  by (simp add: merge_op_def)

lemma create_op_ref [simp]: "op_ref (create_op c) = c_ref c"
  by (simp add: create_op_def flatpak_transaction_operation_new_def)

lemma apply_call_wf:
  assumes "wf_transaction t"
  shows "wf_transaction (apply_call t c)"
proof (cases "refs t (c_ref c)")
  case None
  with assms have fresh: "c_ref c \<notin> op_ref ` set (heap t)" by (rule wf_refs_None)
  have "\<forall>p<Suc (length (heap t)).
          ((refs t)(c_ref c \<mapsto> length (heap t))) (op_ref ((heap t @ [create_op c]) ! p)) = Some p"
  proof (intro allI impI)
    fix p assume "p < Suc (length (heap t))"
    then consider "p < length (heap t)" | "p = length (heap t)" by linarith
    then show "((refs t)(c_ref c \<mapsto> length (heap t))) (op_ref ((heap t @ [create_op c]) ! p)) = Some p"
    proof cases
      case 1
      with fresh have "op_ref (heap t ! p) \<noteq> c_ref c" by (metis imageI nth_mem)
      with 1 assms show ?thesis by (simp add: nth_append wf_refs_nth)
    next
      case 2
      then show ?thesis by simp
    qed
  qed
  moreover have "dom ((refs t)(c_ref c \<mapsto> length (heap t))) = op_ref ` set (heap t @ [create_op c])"
    using assms unfolding wf_transaction_def by auto
  moreover have "length (heap t) # ops t = rev [0..<Suc (length (heap t))]"
    using assms unfolding wf_transaction_def by simp
  ultimately show ?thesis
    unfolding wf_transaction_def by (simp add: apply_call_fresh [OF None])
next
  case (Some p)
  with assms have p: "p < length (heap t)" "op_ref (heap t ! p) = c_ref c"
    using wf_refs_Some by blast+
  let ?h = "(heap t)[p := merge_op (heap t ! p) c]"
  have refs: "op_ref (?h ! q) = op_ref (heap t ! q)" if "q < length (heap t)" for q
    using that p by (cases "q = p") simp_all
  have "map op_ref ?h = map op_ref (heap t)"
    by (rule nth_equalityI) (simp_all add: refs)
  then have "op_ref ` set ?h = op_ref ` set (heap t)"
    by (metis set_map)
  with assms refs show ?thesis
    unfolding wf_transaction_def by (simp add: apply_call_existing [OF Some])
qed

lemma apply_call_refs_mono:
  "refs t r = Some p \<Longrightarrow> refs (apply_call t c) r = Some p"
  by (cases "refs t (c_ref c)") (auto simp: apply_call_fresh apply_call_existing)

lemma apply_call_length:
  "length (heap t) \<le> length (heap (apply_call t c))"
  by (cases "refs t (c_ref c)") (auto simp: apply_call_fresh apply_call_existing)

lemma apply_call_contains:
  "refs (apply_call t c) (c_ref c) \<noteq> None"
  by (cases "refs t (c_ref c)") (auto simp: apply_call_fresh apply_call_existing)

subsection \<open>Sequences of calls\<close>

lemma apply_calls_Nil [simp]: "apply_calls t [] = t"
  by (simp add: apply_calls_def)

lemma apply_calls_Cons [simp]: "apply_calls t (c # cs) = apply_calls (apply_call t c) cs"
  by (simp add: apply_calls_def)

lemma apply_calls_append: "apply_calls t (cs @ cs') = apply_calls (apply_calls t cs) cs'"
  by (simp add: apply_calls_def)

lemma apply_calls_wf: "wf_transaction t \<Longrightarrow> wf_transaction (apply_calls t cs)"
  by (induction cs arbitrary: t) (simp_all add: apply_call_wf)

lemma apply_calls_heap:
  "wf_transaction t \<Longrightarrow> heap (apply_calls t cs) = foldl upsert (heap t) cs"
  by (induction cs arbitrary: t) (simp_all add: apply_call_wf apply_call_heap)

lemma apply_calls_flags [simp]:
  "no_pull (apply_calls t cs) = no_pull t"
  "no_deploy (apply_calls t cs) = no_deploy t"
  "add_deps_enabled (apply_calls t cs) = add_deps_enabled t"
  "add_related_enabled (apply_calls t cs) = add_related_enabled t"
  by (induction cs arbitrary: t) simp_all

lemma apply_calls_refs_mono:
  "refs t r = Some p \<Longrightarrow> refs (apply_calls t cs) r = Some p"
  by (induction cs arbitrary: t) (simp_all add: apply_call_refs_mono)

lemma apply_calls_length: "length (heap t) \<le> length (heap (apply_calls t cs))"
proof (induction cs arbitrary: t)
  case Nil
  show ?case by simp
next
  case (Cons c cs)
  have "length (heap t) \<le> length (heap (apply_call t c))" by (rule apply_call_length)
  also have "\<dots> \<le> length (heap (apply_calls (apply_call t c) cs))" by (rule Cons.IH)
  finally show ?case by simp
qed

subsection \<open>Merging subpaths\<close>

lemma foldl_merge_absorb:
  "s = None \<or> s = Some [] \<Longrightarrow> foldl merge_subpaths s ss = s"
  by (induction ss) (auto simp: merge_subpaths_def)

lemma foldl_merge_explicit:
  "s \<noteq> None \<Longrightarrow> s \<noteq> Some [] \<Longrightarrow>
   foldl merge_subpaths s ss =
     (if Some [] \<in> set ss then Some []
      else if filter (\<lambda>x. x \<noteq> None) ss = [] then s
      else last (filter (\<lambda>x. x \<noteq> None) ss))"
proof (induction ss arbitrary: s)
  case Nil
  show ?case by simp
next
  case (Cons x ss)
  show ?case
  proof (cases "x = None")
    case True
    with Cons.prems have "merge_subpaths s x = s" by (simp add: merge_subpaths_def)
    with True Cons.IH [OF Cons.prems] show ?thesis by simp
  next
    case False
    with Cons.prems have m: "merge_subpaths s x = x" by (simp add: merge_subpaths_def)
    show ?thesis
    proof (cases "x = Some []")
      case True
      with m show ?thesis by (simp add: foldl_merge_absorb)
    next
      case nonempty: False
      from Cons.IH [OF False nonempty] m False nonempty show ?thesis by auto
    qed
  qed
qed

lemma foldl_merge_idem:
  "foldl merge_subpaths (foldl merge_subpaths s ss) ss = foldl merge_subpaths s ss"
proof (cases "s = None \<or> s = Some []")
  case True
  then show ?thesis by (simp add: foldl_merge_absorb)
next
  case False
  then have s: "s \<noteq> None" "s \<noteq> Some []" by simp_all
  let ?f = "filter (\<lambda>x. x \<noteq> None) ss"
  show ?thesis
  proof (cases "Some [] \<in> set ss")
    case True
    have "foldl merge_subpaths s ss = Some []"
      by (simp only: foldl_merge_explicit [OF s] True if_True)
    then show ?thesis by (simp add: foldl_merge_absorb)
  next
    case no_all: False
    show ?thesis
    proof (cases "?f = []")
      case True
      have "foldl merge_subpaths s ss = s"
        by (simp only: foldl_merge_explicit [OF s] no_all True if_False if_True simp_thms)
      then show ?thesis by simp
    next
      case False
      then have "last ?f \<in> set ?f" by (rule last_in_set)
      then have l: "last ?f \<noteq> None" "last ?f \<in> set ss" by auto
      with no_all have l': "last ?f \<noteq> Some []" by metis
      have r: "foldl merge_subpaths s ss = last ?f"
        by (simp only: foldl_merge_explicit [OF s] no_all False if_False)
      have "foldl merge_subpaths (last ?f) ss = last ?f"
        by (simp only: foldl_merge_explicit [OF l(1) l'] no_all False if_False)
      with r show ?thesis by simp
    qed
  qed
qed

lemma foldl_merge_op_fields:
  "op_subpaths (foldl merge_op op X) = foldl merge_subpaths (op_subpaths op) (map c_subpaths X)"
  "op_non_fatal (foldl merge_op op X) = (op_non_fatal op \<or> (\<exists>c\<in>set X. c_non_fatal c))"
  "op_ref (foldl merge_op op X) = op_ref op"
  "op_remote (foldl merge_op op X) = op_remote op"
  "op_commit (foldl merge_op op X) = op_commit op"
  "op_install (foldl merge_op op X) = op_install op"
  "op_update (foldl merge_op op X) = op_update op"
  by (induction X arbitrary: op) (auto simp: merge_op_def)

lemma foldl_merge_op_idem:
  "foldl merge_op (foldl merge_op op X) X = foldl merge_op op X"
  by (rule FlatpakTransactionOp.equality)
     (auto simp: foldl_merge_op_fields foldl_merge_idem)

lemma merge_create_op: "merge_op (create_op c) c = create_op c"
  by (rule FlatpakTransactionOp.equality)
     (auto simp: merge_op_def create_op_def flatpak_transaction_operation_new_def
        merge_subpaths_def)

subsection \<open>The store after a sequence of calls\<close>

lemma map_merge_refs:
  "map op_ref (map (\<lambda>op. if op_ref op = r then merge_op op c else op) h) = map op_ref h"
  by (induction h) auto

lemma set_merge_refs:
  "op_ref ` set (map (\<lambda>op. if op_ref op = r then merge_op op c else op) h) = op_ref ` set h"
  by (metis map_merge_refs set_map)

lemma upsert_refs: "op_ref ` set (upsert h c) = insert (c_ref c) (op_ref ` set h)"
proof (cases "c_ref c \<in> op_ref ` set h")
  case True
  then show ?thesis by (simp only: upsert_def if_True set_merge_refs insert_absorb)
next
  case False
  then show ?thesis by (simp add: upsert_def)
qed

lemma foldl_upsert_refs:
  "op_ref ` set (foldl upsert h cs) = op_ref ` set h \<union> c_ref ` set cs"
  by (induction cs arbitrary: h) (auto simp: upsert_refs)

lemma foldl_upsert_present:
  "c_ref ` set cs \<subseteq> op_ref ` set h \<Longrightarrow>
   foldl upsert h cs = map (\<lambda>op. foldl merge_op op (filter (\<lambda>c. c_ref c = op_ref op) cs)) h"
proof (induction cs arbitrary: h)
  case Nil
  show ?case by (simp add: map_idI)
next
  case (Cons c cs)
  then have c: "c_ref c \<in> op_ref ` set h" and cs: "c_ref ` set cs \<subseteq> op_ref ` set h"
    by simp_all
  let ?h = "map (\<lambda>op. if op_ref op = c_ref c then merge_op op c else op) h"
  have u: "upsert h c = ?h" using c by (simp add: upsert_def)
  have "op_ref ` set ?h = op_ref ` set h" by (rule set_merge_refs)
  with cs have "c_ref ` set cs \<subseteq> op_ref ` set ?h" by simp
  from Cons.IH [OF this] show ?case
    by (simp add: u comp_def cong: map_cong)
qed

lemma foldl_upsert_elems:
  "op \<in> set (foldl upsert h cs) \<Longrightarrow>
     (\<exists>op0\<in>set h. op = foldl merge_op op0 (filter (\<lambda>c. c_ref c = op_ref op0) cs)) \<or>
     (\<exists>c rest. filter (\<lambda>c. c_ref c = op_ref op) cs = c # rest \<and>
                op = foldl merge_op (create_op c) rest \<and> op_ref op \<notin> op_ref ` set h)"
proof (induction cs arbitrary: h)
  case Nil
  then show ?case by simp
next
  case (Cons c cs)
  from Cons.prems have "op \<in> set (foldl upsert (upsert h c) cs)" by simp
  from Cons.IH [OF this] show ?case
  proof (elim disjE bexE exE conjE)
    fix op1 assume op1: "op1 \<in> set (upsert h c)"
      and eq: "op = foldl merge_op op1 (filter (\<lambda>c. c_ref c = op_ref op1) cs)"
    show ?thesis
    proof (cases "c_ref c \<in> op_ref ` set h")
      case True
      with op1 obtain op0 where op0: "op0 \<in> set h"
        "op1 = (if op_ref op0 = c_ref c then merge_op op0 c else op0)"
        by (auto simp: upsert_def)
      then have "op = foldl merge_op op0 (filter (\<lambda>c. c_ref c = op_ref op0) (c # cs))"
        using eq by auto
      with op0(1) show ?thesis by blast
    next
      case False
      with op1 consider "op1 \<in> set h" | "op1 = create_op c" by (auto simp: upsert_def)
      then show ?thesis
      proof cases
        case 1
        with False have "op_ref op1 \<noteq> c_ref c" by (metis imageI)
        with eq have "op = foldl merge_op op1 (filter (\<lambda>c. c_ref c = op_ref op1) (c # cs))"
          by auto
        with 1 show ?thesis by blast
      next
        case 2
        with eq have r: "op_ref op = c_ref c" by (simp add: foldl_merge_op_fields)
        with 2 eq have "filter (\<lambda>c. c_ref c = op_ref op) (c # cs) =
                          c # filter (\<lambda>c. c_ref c = op_ref op) cs \<and>
                        op = foldl merge_op (create_op c) (filter (\<lambda>c. c_ref c = op_ref op) cs)"
          by simp
        with r False show ?thesis by metis
      qed
    qed
  next
    fix c' rest assume f: "filter (\<lambda>c. c_ref c = op_ref op) cs = c' # rest"
      and eq: "op = foldl merge_op (create_op c') rest"
      and fresh: "op_ref op \<notin> op_ref ` set (upsert h c)"
    from fresh have "op_ref op \<noteq> c_ref c" "op_ref op \<notin> op_ref ` set h"
      by (auto simp: upsert_refs)
    with f eq show ?thesis by auto
  qed
qed

lemma foldl_upsert_saturated:
  assumes "op \<in> set (foldl upsert h cs)"
  shows "foldl merge_op op (filter (\<lambda>c. c_ref c = op_ref op) cs) = op"
  using foldl_upsert_elems [OF assms]
proof (elim disjE bexE exE conjE)
  fix op0 assume "op = foldl merge_op op0 (filter (\<lambda>c. c_ref c = op_ref op0) cs)"
  then show ?thesis by (simp add: foldl_merge_op_fields foldl_merge_op_idem)
next
  fix c rest assume f: "filter (\<lambda>c. c_ref c = op_ref op) cs = c # rest"
    and eq: "op = foldl merge_op (create_op c) rest"
  have "op = foldl merge_op (create_op c) (c # rest)"
    using eq by (simp add: merge_create_op)
  then have "foldl merge_op op (c # rest) = op"
    by (metis foldl_merge_op_idem)
  with f show ?thesis by simp
qed

lemma foldl_upsert_idem: "foldl upsert (foldl upsert h cs) cs = foldl upsert h cs"
proof -
  have "c_ref ` set cs \<subseteq> op_ref ` set (foldl upsert h cs)"
    by (simp add: foldl_upsert_refs)
  then have "foldl upsert (foldl upsert h cs) cs =
               map (\<lambda>op. foldl merge_op op (filter (\<lambda>c. c_ref c = op_ref op) cs))
                 (foldl upsert h cs)"
    by (rule foldl_upsert_present)
  also have "\<dots> = foldl upsert h cs"
    by (rule map_idI) (rule foldl_upsert_saturated)
  finally show ?thesis .
qed

lemma apply_calls_idem:
  assumes "wf_transaction t"
  shows "apply_calls (apply_calls t cs) cs = apply_calls t cs"
proof (rule wf_eqI)
  show "wf_transaction (apply_calls (apply_calls t cs) cs)"
    using assms by (simp add: apply_calls_wf)
  show "wf_transaction (apply_calls t cs)"
    using assms by (simp add: apply_calls_wf)
  show "heap (apply_calls (apply_calls t cs) cs) = heap (apply_calls t cs)"
    using assms by (simp add: apply_calls_heap apply_calls_wf foldl_upsert_idem)
qed simp_all

subsection \<open>The calls of the planner\<close>

lemma apply_call_op_call:
  "apply_call t (op_call remote ref sp commit i u) =
     snd (flatpak_transaction_add_op t remote ref sp commit i u)"
  by (simp add: apply_call_def op_call_def split: prod.splits)

lemma add_related_loop_calls:
  "add_related_loop t remote related = apply_calls t (related_calls remote related)"
  by (induction related arbitrary: t)
     (simp_all add: related_calls_def apply_call_def Let_def split: prod.splits)

lemma add_related_calls:
  "add_related env dir t remote ref = (True, apply_calls t (add_related_calls env dir t remote ref))"
  by (simp add: add_related_def add_related_calls_def add_related_loop_calls split: option.splits)

lemma add_related_calls_flags:
  "no_pull t = no_pull t' \<Longrightarrow> add_related_enabled t = add_related_enabled t' \<Longrightarrow>
   add_related_calls env dir t remote ref = add_related_calls env dir t' remote ref"
  by (simp add: add_related_calls_def)

lemma add_op_flags [simp]:
  "no_pull (snd (flatpak_transaction_add_op t remote ref sp commit i u)) = no_pull t"
  "no_deploy (snd (flatpak_transaction_add_op t remote ref sp commit i u)) = no_deploy t"
  "add_deps_enabled (snd (flatpak_transaction_add_op t remote ref sp commit i u)) =
     add_deps_enabled t"
  "add_related_enabled (snd (flatpak_transaction_add_op t remote ref sp commit i u)) =
     add_related_enabled t"
  by (simp_all add: flatpak_transaction_add_op_def Let_def split: option.splits)

lemma add_related_calls_add_op [simp]:
  "add_related_calls env dir (snd (flatpak_transaction_add_op t rm r sp commit i u)) remote ref =
     add_related_calls env dir t remote ref"
  by (rule add_related_calls_flags) simp_all

lemma add_related_calls_apply_calls [simp]:
  "add_related_calls env dir (apply_calls t cs) remote ref =
     add_related_calls env dir t remote ref"
  by (rule add_related_calls_flags) simp_all

lemma add_related_calls_apply_call [simp]:
  "add_related_calls env dir (apply_call t c) remote ref =
     add_related_calls env dir t remote ref"
  by (rule add_related_calls_flags) simp_all

lemma add_deps_calls:
  "snd (snd (add_deps env dir t remote ref)) = apply_calls t (deps_calls env dir t remote ref)"
  by (auto simp add: add_deps_def deps_calls_def runtime_remote_choice_def Let_def
      flatpak_transaction_contains_ref_def add_related_calls apply_call_op_call
      split: option.splits list.splits)

lemma add_ref_proceeds:
  assumes "proceeds env dir remote ref is_update rm"
  shows "flatpak_transaction_add_ref env dir t remote ref sp commit is_update =
           Some (True,
                 (if add_deps_enabled t then fst (snd (add_deps env dir t rm ref)) else None),
                 apply_calls t (ref_calls env dir t rm ref sp commit is_update))"
proof -
  obtain b e t1 where d: "add_deps env dir t rm ref = (b, e, t1)"
    by (cases "add_deps env dir t rm ref") auto
  then have t1: "t1 = apply_calls t (deps_calls env dir t rm ref)"
    using add_deps_calls [of env dir t rm ref] by simp
  obtain p t2 where a: "flatpak_transaction_add_op
      (if add_deps_enabled t then t1 else t) rm ref sp commit (\<not> is_update) is_update = (p, t2)"
    by (cases "flatpak_transaction_add_op
      (if add_deps_enabled t then t1 else t) rm ref sp commit (\<not> is_update) is_update") auto
  then have t2: "t2 = apply_call (if add_deps_enabled t then t1 else t)
                        (op_call rm ref sp commit (\<not> is_update) is_update)"
    by (simp add: apply_call_op_call)
  have rel: "add_related_calls env dir t2 rm ref = add_related_calls env dir t rm ref"
    by (rule add_related_calls_flags) (simp_all add: t2 t1)
  show ?thesis
  proof (cases is_update)
    case True
    with assms d a show ?thesis
      by (cases "add_deps_enabled t")
         (simp_all add: proceeds_def flatpak_transaction_add_ref_def add_related_calls rel
            ref_calls_def apply_calls_append t1 t2)
  next
    case False
    with assms d a show ?thesis
      by (cases "add_deps_enabled t")
         (simp_all add: proceeds_def flatpak_transaction_add_ref_def add_related_calls rel
            ref_calls_def apply_calls_append t1 t2)
  qed
qed

lemma add_ref_early:
  assumes "\<not> proceeds env dir remote ref is_update rm" 
    "flatpak_transaction_add_ref env dir t remote ref sp commit is_update = Some (b, e, t')"
    "rm = resolved_remote env dir remote ref is_update"
  shows "t' = t"
  using assms
  by (auto simp add: proceeds_def flatpak_transaction_add_ref_def resolved_remote_def
      split: if_splits option.splits)

lemma apply_calls_contains:
  "c \<in> set cs \<Longrightarrow> refs (apply_calls t cs) (c_ref c) \<noteq> None"
proof (induction cs arbitrary: t)
  case Nil
  then show ?case by simp
next
  case (Cons x cs)
  show ?case
  proof (cases "c = x")
    case True
    obtain p where "refs (apply_call t x) (c_ref x) = Some p"
      using apply_call_contains [of t x] by auto
    then have "refs (apply_calls (apply_call t x) cs) (c_ref x) = Some p"
      by (rule apply_calls_refs_mono)
    with True show ?thesis by simp
  next
    case False
    with Cons.prems have "c \<in> set cs" by simp
    from Cons.IH [OF this] show ?thesis by simp
  qed
qed

lemma apply_calls_refs_None:
  assumes "refs (apply_calls t cs) r = None"
  shows "refs t r = None"
proof (cases "refs t r")
  case None
  then show ?thesis .
next
  case (Some p)
  then have "refs (apply_calls t cs) r = Some p" by (rule apply_calls_refs_mono)
  with assms show ?thesis by simp
qed

lemma deps_calls_second:
  assumes "t1 = apply_calls t (deps_calls env dir t rm ref @ cs)"
  shows "deps_calls env dir t1 rm ref = []"
proof (cases "transaction_fetch_runtime_ref env dir rm ref")
  case None
  then show ?thesis by (simp add: deps_calls_def)
next
  case (Some runtime_ref)
  let ?full = "''runtime/'' @ runtime_ref"
  show ?thesis
  proof (cases "refs t1 ?full")
    case (Some p)
    with \<open>transaction_fetch_runtime_ref env dir rm ref = Some runtime_ref\<close> show ?thesis
      by (simp add: deps_calls_def Let_def)
  next
    case None
    then have t: "refs t ?full = None" unfolding assms by (rule apply_calls_refs_None)
    have "runtime_remote_choice env dir ?full = None"
    proof (rule ccontr)
      assume "runtime_remote_choice env dir ?full \<noteq> None"
      then obtain rr where "runtime_remote_choice env dir ?full = Some rr" by auto
      with t \<open>transaction_fetch_runtime_ref env dir rm ref = Some runtime_ref\<close>
      have "op_call rr ?full None None (\<not> ref_is_installed env dir ?full) True
              \<in> set (deps_calls env dir t rm ref @ cs)"
        by (simp add: deps_calls_def Let_def)
      from apply_calls_contains [OF this] have "refs t1 ?full \<noteq> None"
        unfolding assms by (simp add: op_call_def)
      with None show False by simp
    qed
    with None \<open>transaction_fetch_runtime_ref env dir rm ref = Some runtime_ref\<close> show ?thesis
      by (simp add: deps_calls_def Let_def)
  qed
qed

lemma ref_calls_second:
  assumes "wf_transaction t" "t1 = apply_calls t (ref_calls env dir t rm ref sp commit is_update)"
  shows "apply_calls t1 (ref_calls env dir t1 rm ref sp commit is_update) = t1"
proof -
  let ?D = "if add_deps_enabled t then deps_calls env dir t rm ref else []"
  let ?F = "op_call rm ref sp commit (\<not> is_update) is_update # add_related_calls env dir t rm ref"
  have t1: "t1 = apply_calls (apply_calls t ?D) ?F"
    unfolding assms(2) ref_calls_def by (simp only: apply_calls_append)
  have D: "(if add_deps_enabled t1 then deps_calls env dir t1 rm ref else []) = []"
  proof (cases "add_deps_enabled t")
    case True
    have "deps_calls env dir t1 rm ref = []"
      by (rule deps_calls_second [of _ t _ _ _ _ ?F])
         (simp add: assms(2) ref_calls_def True)
    then show ?thesis by simp
  next
    case False
    then show ?thesis by (simp add: assms(2))
  qed
  have F: "add_related_calls env dir t1 rm ref = add_related_calls env dir t rm ref"
    by (simp add: assms(2))
  have "apply_calls t1 (ref_calls env dir t1 rm ref sp commit is_update) = apply_calls t1 ?F"
    unfolding ref_calls_def D F by simp
  also have "\<dots> = t1"
    unfolding t1 by (rule apply_calls_idem) (simp add: apply_calls_wf assms(1))
  finally show ?thesis .
qed

lemma after_deps_calls:
  "after_deps env dir t remote ref is_update =
     apply_calls t (if add_deps_enabled t
                    then deps_calls env dir t (resolved_remote env dir remote ref is_update) ref
                    else [])"
  by (simp add: after_deps_def add_deps_calls)

lemma proceeds_resolved:
  "proceeds env dir remote ref is_update rm \<Longrightarrow> resolved_remote env dir remote ref is_update = rm"
  by (auto simp: proceeds_def resolved_remote_def split: if_splits)

lemma add_ref_result:
  assumes "flatpak_transaction_add_ref env dir t remote ref sp commit is_update = Some (ok, e, t')"
    and "rm = resolved_remote env dir remote ref is_update"
  shows "(proceeds env dir remote ref is_update rm \<and> ok \<and>
            t' = apply_calls (apply_call (after_deps env dir t remote ref is_update)
                                (op_call rm ref sp commit (\<not> is_update) is_update))
                   (add_related_calls env dir t rm ref)) \<or>
         (\<not> proceeds env dir remote ref is_update rm \<and> t' = t)"
proof (cases "proceeds env dir remote ref is_update rm")
  case True
  from add_ref_proceeds [OF True, of t sp commit] assms(1)
  have "ok" and "t' = apply_calls t (ref_calls env dir t rm ref sp commit is_update)"
    by simp_all
  then show ?thesis
    using True by (simp add: after_deps_calls ref_calls_def apply_calls_append assms(2) [symmetric])
next
  case False
  with add_ref_early [OF False assms] show ?thesis by simp
qed


lemma wf_ops_set: "wf_transaction t \<Longrightarrow> set (ops t) = {..<length (heap t)}"
  by (auto simp: wf_transaction_def)


lemma after_deps_wf: "wf_transaction t \<Longrightarrow> wf_transaction (after_deps env dir t remote ref is_update)"
  by (simp only: after_deps_calls apply_calls_wf)


subsection \<open>The executor\<close>

lemma resolve_flags_fields [simp]:
  "op_non_fatal (resolve_flags env dir op) = op_non_fatal op"
  "op_ref (resolve_flags env dir op) = op_ref op"
  "op_remote (resolve_flags env dir op) = op_remote op"
  "op_subpaths (resolve_flags env dir op) = op_subpaths op"
  "op_commit (resolve_flags env dir op) = op_commit op"
  by (simp_all add: resolve_flags_def)

lemma resolve_flags_one:
  "op_install op \<or> op_update op \<Longrightarrow>
   op_install (resolve_flags env dir op) \<noteq> op_update (resolve_flags env dir op)"
  by (auto simp: resolve_flags_def)

lemma resolve_flags_fixed:
  "op_install op \<noteq> op_update op \<Longrightarrow> resolve_flags env dir op = op"
  by (auto simp: resolve_flags_def)

lemma run_loop_failed_mono:
  "set failed \<subseteq> set (run_failed (run_loop env stop ps t d succeeded err failed))"
proof (induction ps arbitrary: t d succeeded err failed)
  case Nil
  show ?case by simp
next
  case (Cons l ps)
  let ?op = "resolve_flags env d (heap t ! l)"
  let ?t1 = "t\<lparr>heap := (heap t)[l := ?op]\<rparr>"
  obtain res d1 where disp: "dispatch env ?t1 d ?op = (res, d1)"
    by (meson surj_pair)
  show ?case
  proof (cases res)
    case None
    with disp Cons.IH [of failed ?t1 d1 succeeded err] show ?thesis by (simp add: Let_def)
  next
    case (Some local_error)
    show ?thesis
    proof (cases "op_non_fatal (heap t ! l)")
      case True
      with disp Some Cons.IH [of "failed @ [l]" ?t1 d1 succeeded err] show ?thesis
        by (simp add: Let_def)
    next
      case False
      show ?thesis
      proof (cases stop)
        case True
        with False disp Some show ?thesis by (auto simp add: Let_def)
      next
        case nostop: False
        from Cons.IH [of "failed @ [l]" ?t1 d1 False
            "if succeeded then Some (flatpak_fail ''One or more operations failed'') else err"]
        have "set failed \<subseteq> set (run_failed (run_loop env stop ps ?t1 d1 False
            (if succeeded then Some (flatpak_fail ''One or more operations failed'') else err)
            (failed @ [l])))" by simp
        with nostop False disp Some show ?thesis by (simp add: Let_def)
      qed
    qed
  qed
qed

lemma run_loop_nonfatal:
  assumes "\<forall>q\<in>set ps. q < length (heap t)"
    and "\<forall>q\<in>set (run_failed (run_loop env stop ps t d True None failed)).
           q \<in> set ps \<longrightarrow> op_non_fatal (heap t ! q)"
  shows "run_ok (run_loop env stop ps t d True None failed) \<and>
         run_error (run_loop env stop ps t d True None failed) = None"
  using assms
proof (induction ps arbitrary: t d failed)
  case Nil
  show ?case by simp
next
  case (Cons l ps)
  let ?op = "resolve_flags env d (heap t ! l)"
  let ?t1 = "t\<lparr>heap := (heap t)[l := ?op]\<rparr>"
  obtain res d1 where disp: "dispatch env ?t1 d ?op = (res, d1)"
    by (meson surj_pair)
  from Cons.prems(1) have l: "l < length (heap t)" and ps: "\<forall>q\<in>set ps. q < length (heap ?t1)"
    by simp_all
  have nf: "op_non_fatal (heap ?t1 ! q) = op_non_fatal (heap t ! q)" for q
    using l by (cases "q = l") simp_all
  show ?case
  proof (cases res)
    case None
    then have eq: "run_loop env stop (l # ps) t d True None failed =
                     run_loop env stop ps ?t1 d1 True None failed"
      using disp by (simp add: Let_def)
    have "\<forall>q\<in>set (run_failed (run_loop env stop ps ?t1 d1 True None failed)).
            q \<in> set ps \<longrightarrow> op_non_fatal (heap ?t1 ! q)"
      using Cons.prems(2) unfolding eq nf by simp
    from Cons.IH [OF ps this] eq show ?thesis by simp
  next
    case (Some local_error)
    have "op_non_fatal (heap t ! l)"
    proof (rule ccontr)
      assume n: "\<not> op_non_fatal (heap t ! l)"
      have "l \<in> set (run_failed (run_loop env stop (l # ps) t d True None failed))"
      proof (cases stop)
        case True
        with n disp Some show ?thesis by (simp add: Let_def)
      next
        case False
        have "set (failed @ [l]) \<subseteq> set (run_failed (run_loop env stop ps ?t1 d1 False
            (Some (flatpak_fail ''One or more operations failed'')) (failed @ [l])))"
          by (rule run_loop_failed_mono)
        with False n disp Some show ?thesis by (simp add: Let_def)
      qed
      with Cons.prems(2) n show False by (auto simp del: run_loop.simps)
    qed
    then have eq: "run_loop env stop (l # ps) t d True None failed =
                     run_loop env stop ps ?t1 d1 True None (failed @ [l])"
      using disp Some by (simp add: Let_def)
    have "\<forall>q\<in>set (run_failed (run_loop env stop ps ?t1 d1 True None (failed @ [l]))).
            q \<in> set ps \<longrightarrow> op_non_fatal (heap ?t1 ! q)"
      using Cons.prems(2) unfolding eq nf by simp
    from Cons.IH [OF ps this] eq show ?thesis by simp
  qed
qed

lemma run_nonfatal:
  assumes "wf_transaction t"
    and "\<forall>q\<in>set (run_failed (flatpak_transaction_run env t d stop)). op_non_fatal (heap t ! q)"
  shows "run_ok (flatpak_transaction_run env t d stop) \<and>
         run_error (flatpak_transaction_run env t d stop) = None"
proof -
  let ?t1 = "t\<lparr>ops := rev (ops t)\<rparr>"
  have run: "flatpak_transaction_run env t d stop = run_loop env stop (rev (ops t)) ?t1 d True None []"
    by (simp add: flatpak_transaction_run_def Let_def)
  have "\<forall>q\<in>set (rev (ops t)). q < length (heap ?t1)"
    using assms(1) by (simp add: wf_ops_set)
  moreover have "\<forall>q\<in>set (run_failed (run_loop env stop (rev (ops t)) ?t1 d True None [])).
      q \<in> set (rev (ops t)) \<longrightarrow> op_non_fatal (heap ?t1 ! q)"
    using assms(2) unfolding run by simp
  ultimately show ?thesis unfolding run by (rule run_loop_nonfatal)
qed

lemma run_loop_flags:
  assumes "\<forall>q\<in>set ps. q < length (heap t)"
    and "\<forall>q<length (heap t). op_install (heap t ! q) \<or> op_update (heap t ! q)"
    and "\<forall>q<length (heap t). q \<notin> set ps \<longrightarrow> op_install (heap t ! q) \<noteq> op_update (heap t ! q)"
    and "\<not> stop \<or> run_ok (run_loop env stop ps t d succeeded err failed)"
  shows "\<forall>op\<in>set (heap (run_self (run_loop env stop ps t d succeeded err failed))).
           op_install op \<noteq> op_update op"
  using assms
proof (induction ps arbitrary: t d succeeded err failed)
  case Nil
  then show ?case by (auto simp: in_set_conv_nth)
next
  case (Cons l ps)
  let ?op = "resolve_flags env d (heap t ! l)"
  let ?t1 = "t\<lparr>heap := (heap t)[l := ?op]\<rparr>"
  obtain res d1 where disp: "dispatch env ?t1 d ?op = (res, d1)"
    by (meson surj_pair)
  from Cons.prems(1) have l: "l < length (heap t)" by simp
  with Cons.prems(2) have one: "op_install ?op \<noteq> op_update ?op"
    by (simp add: resolve_flags_one)
  have 1: "\<forall>q\<in>set ps. q < length (heap ?t1)" using Cons.prems(1) by simp
  have 2: "\<forall>q<length (heap ?t1). op_install (heap ?t1 ! q) \<or> op_update (heap ?t1 ! q)"
    using Cons.prems(2) one l by (auto simp: nth_list_update)
  have 3: "\<forall>q<length (heap ?t1). q \<notin> set ps \<longrightarrow>
             op_install (heap ?t1 ! q) \<noteq> op_update (heap ?t1 ! q)"
    using Cons.prems(3) one l by (auto simp: nth_list_update)
  show ?case
  proof (cases res)
    case None
    then have eq: "run_loop env stop (l # ps) t d succeeded err failed =
                     run_loop env stop ps ?t1 d1 succeeded err failed"
      using disp by (simp add: Let_def)
    from Cons.prems(4) have "\<not> stop \<or> run_ok (run_loop env stop ps ?t1 d1 succeeded err failed)"
      unfolding eq .
    from Cons.IH [OF 1 2 3 this] show ?thesis unfolding eq .
  next
    case (Some local_error)
    show ?thesis
    proof (cases "op_non_fatal (heap t ! l)")
      case True
      then have eq: "run_loop env stop (l # ps) t d succeeded err failed =
                       run_loop env stop ps ?t1 d1 succeeded err (failed @ [l])"
        using disp Some by (simp add: Let_def)
      from Cons.prems(4)
      have "\<not> stop \<or> run_ok (run_loop env stop ps ?t1 d1 succeeded err (failed @ [l]))"
        unfolding eq .
      from Cons.IH [OF 1 2 3 this] show ?thesis unfolding eq .
    next
      case False
      show ?thesis
      proof (cases stop)
        case True
        with False disp Some have "\<not> run_ok (run_loop env stop (l # ps) t d succeeded err failed)"
          by (simp add: Let_def)
        with True Cons.prems(4) show ?thesis by simp
      next
        case nostop: False
        let ?err = "if succeeded then Some (flatpak_fail ''One or more operations failed'') else err"
        have eq: "run_loop env stop (l # ps) t d succeeded err failed =
                    run_loop env stop ps ?t1 d1 False ?err (failed @ [l])"
          using nostop False disp Some by (simp add: Let_def)
        from nostop
        have "\<not> stop \<or> run_ok (run_loop env stop ps ?t1 d1 False ?err (failed @ [l]))"
          by simp
        from Cons.IH [OF 1 2 3 this] show ?thesis unfolding eq .
      qed
    qed
  qed
qed

lemma run_flags:
  assumes "wf_transaction t"
    and "\<forall>op\<in>set (heap t). op_install op \<or> op_update op"
    and "\<not> stop \<or> run_ok (flatpak_transaction_run env t d stop)"
  shows "\<forall>op\<in>set (heap (run_self (flatpak_transaction_run env t d stop))).
           op_install op \<noteq> op_update op"
proof -
  let ?t1 = "t\<lparr>ops := rev (ops t)\<rparr>"
  have run: "flatpak_transaction_run env t d stop = run_loop env stop (rev (ops t)) ?t1 d True None []"
    by (simp add: flatpak_transaction_run_def Let_def)
  have 1: "\<forall>q\<in>set (rev (ops t)). q < length (heap ?t1)"
    using assms(1) by (simp add: wf_ops_set)
  have 2: "\<forall>q<length (heap ?t1). op_install (heap ?t1 ! q) \<or> op_update (heap ?t1 ! q)"
    using assms(2) by simp
  have 3: "\<forall>q<length (heap ?t1). q \<notin> set (rev (ops t)) \<longrightarrow>
             op_install (heap ?t1 ! q) \<noteq> op_update (heap ?t1 ! q)"
    using assms(1) by (simp add: wf_ops_set)
  have 4: "\<not> stop \<or> run_ok (run_loop env stop (rev (ops t)) ?t1 d True None [])"
    using assms(3) unfolding run .
  from run_loop_flags [OF 1 2 3 4] show ?thesis unfolding run .
qed

lemma run_loop_heap_non_fatal:
  "map op_non_fatal (heap (run_self (run_loop env stop ps t d succeeded err failed))) =
     map op_non_fatal (heap t)"
proof (induction ps arbitrary: t d succeeded err failed)
  case Nil
  show ?case by simp
next
  case (Cons l ps)
  let ?op = "resolve_flags env d (heap t ! l)"
  let ?t1 = "t\<lparr>heap := (heap t)[l := ?op]\<rparr>"
  obtain res d1 where disp: "dispatch env ?t1 d ?op = (res, d1)"
    by (meson surj_pair)
  have "op_non_fatal ((heap t)[l := ?op] ! i) = op_non_fatal (heap t ! i)"
    if "i < length (heap t)" for i
    using that by (cases "i = l") simp_all
  then have h: "map op_non_fatal (heap ?t1) = map op_non_fatal (heap t)"
    by (intro nth_equalityI) simp_all
  show ?case
  proof (cases res)
    case None
    with disp Cons.IH [of ?t1 d1 succeeded err failed] h show ?thesis by (simp add: Let_def)
  next
    case (Some local_error)
    from Cons.IH [of ?t1 d1 succeeded err "failed @ [l]"]
      Cons.IH [of ?t1 d1 False
        "if succeeded then Some (flatpak_fail ''One or more operations failed'') else err"
        "failed @ [l]"]
      disp Some h
    show ?thesis by (cases stop) (simp_all add: Let_def)
  qed
qed

subsection \<open>Recorded subpaths and single cells\<close>

lemma add_ops_calls: "add_ops t calls = apply_calls t (map args_call calls)"
  by (induction calls arbitrary: t)
     (auto simp: add_ops_def args_call_def apply_call_op_call apply_calls_def)

lemma subpaths_passed_calls:
  "subpaths_passed ref calls =
     map c_subpaths (filter (\<lambda>c. c_ref c = ref) (map args_call calls))"
  by (induction calls) (auto simp: subpaths_passed_def args_call_def op_call_def)

lemma create_op_subpaths [simp]: "op_subpaths (create_op c) = c_subpaths c"
  by (simp add: create_op_def flatpak_transaction_operation_new_def)

lemma merged_subpaths:
  "foldl merge_subpaths first later =
     (if first = None then None
      else if Some [] \<in> set (first # later) then Some []
      else last (filter (\<lambda>s. s \<noteq> None \<and> s \<noteq> Some []) (first # later)))"
proof (cases "first = None \<or> first = Some []")
  case True
  then show ?thesis by (auto simp: foldl_merge_absorb)
next
  case False
  then have f: "first \<noteq> None" "first \<noteq> Some []" by simp_all
  show ?thesis
  proof (cases "Some [] \<in> set later")
    case True
    with f show ?thesis by (simp add: foldl_merge_explicit [OF f])
  next
    case no_all: False
    then have "filter (\<lambda>s. s \<noteq> None \<and> s \<noteq> Some []) later = filter (\<lambda>s. s \<noteq> None) later"
      by (intro filter_cong) auto
    with f no_all show ?thesis
      by (simp only: foldl_merge_explicit [OF f]) auto
  qed
qed

lemma apply_call_old_cell:
  assumes "wf_transaction t" "q < length (heap t)"
  shows "heap (apply_call t c) ! q =
           (if op_ref (heap t ! q) = c_ref c then merge_op (heap t ! q) c else heap t ! q)"
proof (cases "c_ref c \<in> op_ref ` set (heap t)")
  case True
  with assms show ?thesis by (simp add: apply_call_heap upsert_def)
next
  case False
  with assms(2) have "op_ref (heap t ! q) \<noteq> c_ref c" by (metis imageI nth_mem)
  with False assms show ?thesis by (simp add: apply_call_heap upsert_def nth_append)
qed

lemma apply_calls_old_cell:
  assumes "wf_transaction t" "q < length (heap t)"
  shows "heap (apply_calls t cs) ! q =
           foldl merge_op (heap t ! q) (filter (\<lambda>c. c_ref c = op_ref (heap t ! q)) cs)"
  using assms
proof (induction cs arbitrary: t)
  case Nil
  show ?case by simp
next
  case (Cons c cs)
  have wf1: "wf_transaction (apply_call t c)" using Cons.prems(1) by (rule apply_call_wf)
  have q1: "q < length (heap (apply_call t c))"
    using Cons.prems(2) apply_call_length [of t c] by simp
  from Cons.IH [OF wf1 q1] apply_call_old_cell [OF Cons.prems, of c]
  show ?case by simp
qed

lemma add_ref_wf:
  assumes "wf_transaction t"
    and "flatpak_transaction_add_ref env dir t remote ref sp commit is_update = Some (ok, e, t')"
  shows "wf_transaction t'"
  using add_ref_result [OF assms(2) refl] assms(1)
  by (auto simp: after_deps_wf apply_call_wf apply_calls_wf)


lemma run_loop_untouched:
  "l \<notin> set ps \<Longrightarrow>
   heap (run_self (run_loop env stop ps t d succeeded err failed)) ! l = heap t ! l"
proof (induction ps arbitrary: t d succeeded err failed)
  case Nil
  show ?case by simp
next
  case (Cons x ps)
  let ?op = "resolve_flags env d (heap t ! x)"
  let ?t1 = "t\<lparr>heap := (heap t)[x := ?op]\<rparr>"
  obtain res d1 where disp: "dispatch env ?t1 d ?op = (res, d1)"
    by (meson surj_pair)
  from Cons.prems have x: "x \<noteq> l" and ps: "l \<notin> set ps" by auto
  then have h: "heap ?t1 ! l = heap t ! l" by simp
  show ?case
  proof (cases res)
    case None
    with disp Cons.IH [OF ps, of ?t1 d1 succeeded err failed] h show ?thesis
      by (simp add: Let_def)
  next
    case (Some local_error)
    from Cons.IH [OF ps, of ?t1 d1 succeeded err "failed @ [x]"]
      Cons.IH [OF ps, of ?t1 d1 False
        "if succeeded then Some (flatpak_fail ''One or more operations failed'') else err"
        "failed @ [x]"]
      disp Some h x
    show ?thesis by (cases stop) (simp_all add: Let_def)
  qed
qed

lemma run_loop_head:
  assumes "l < length (heap t)" "l \<notin> set next"
  shows "heap (run_self (run_loop env stop (l # next) t d succeeded err failed)) ! l =
           resolve_flags env d (heap t ! l)"
proof -
  let ?op = "resolve_flags env d (heap t ! l)"
  let ?t1 = "t\<lparr>heap := (heap t)[l := ?op]\<rparr>"
  obtain res d1 where disp: "dispatch env ?t1 d ?op = (res, d1)"
    by (meson surj_pair)
  have h: "heap ?t1 ! l = ?op" using assms(1) by simp
  show ?thesis
  proof (cases res)
    case None
    with disp run_loop_untouched [OF assms(2), of env stop ?t1 d1 succeeded err failed] h
    show ?thesis by (simp add: Let_def)
  next
    case (Some local_error)
    from run_loop_untouched [OF assms(2), of env stop ?t1 d1 succeeded err "failed @ [l]"]
      run_loop_untouched [OF assms(2), of env stop ?t1 d1 False
        "if succeeded then Some (flatpak_fail ''One or more operations failed'') else err"
        "failed @ [l]"]
      disp Some h
    show ?thesis by (cases stop) (simp_all add: Let_def)
  qed
qed




subsection \<open>Evaluation of the concrete installations\<close>

lemmas model_defs =
  flatpak_transaction_add_install_def flatpak_transaction_add_update_def
  flatpak_transaction_add_ref_def add_deps_def add_related_def
  flatpak_transaction_add_op_def flatpak_transaction_operation_new_def
  flatpak_transaction_contains_ref_def flatpak_transaction_new_def
  transaction_fetch_runtime_ref_def ref_is_installed_def dir_ref_is_installed_def
  ask_for_remote_def flatpak_fail_def pref_of_def
  flatpak_transaction_run_def resolve_flags_def dispatch_def

lemmas scenario_defs =
  scenario_def user_dir_def app_X_def runtime_Y_def locale_X_def planner_def locale_rel_def
  install_with_runtime_def ambiguous_runtime_def system_has_app_def origin_disabled_def
  runtime_op_def app_op_def locale_op_def planned_app_only_def planned_def

lemma wf_new: "wf_transaction (flatpak_transaction_new a b c d)"
  by (simp add: wf_transaction_def flatpak_transaction_new_def)

lemma wf_planner: "wf_transaction planner"
  by (simp add: planner_def wf_new)

lemma install_X_planned:
  "flatpak_transaction_add_install (install_with_runtime failing) (user_dir []) planner
     (Some ''origin'') app_X None = Some (True, None, planned)"
  by (simp add: model_defs scenario_defs Let_def numeral_2_eq_2)

lemma wf_planned: "wf_transaction planned"
proof -
  have "planned = apply_calls planner
          (ref_calls (install_with_runtime []) (user_dir []) planner ''origin'' app_X (Some []) None False)"
    using add_ref_proceeds [of "install_with_runtime []" "user_dir []" "Some ''origin''" app_X False
        "''origin''" planner "Some []" None] install_X_planned [of "[]"]
    by (simp add: proceeds_def flatpak_transaction_add_install_def dir_ref_is_installed_def
        install_with_runtime_def scenario_def user_dir_def)
  then show ?thesis by (metis apply_calls_wf wf_planner)
qed

lemmas more_defs = locale_direct_op_def planned_locale_direct_def planned_locale_related_def
  explicit_then_all_def inherit_then_all_def

lemma wf_planned_locale_direct: "wf_transaction planned_locale_direct"
  by (simp add: wf_transaction_def more_defs scenario_defs model_defs)




lemma run_planned_failed:
  "run_failed (flatpak_transaction_run (install_with_runtime [locale_X]) planned (user_dir []) stop)
     = [2]"
  by (simp add: scenario_defs model_defs Let_def numeral_2_eq_2)


section \<open>Claims\<close>

subsection \<open>C1: a failing dependency pass\<close>

text \<open>
  C1 says that \<^verbatim>\<open>add_install\<close> returns the failure of the dependency pass and
  records no operation for the requested ref. The source calls \<^verbatim>\<open>add_deps\<close> as a
  statement and drops its result, while it tests the result of \<^verbatim>\<open>add_related\<close> two
  lines below. What the code does instead: whenever the dependency pass of an install
  request fails, \<^verbatim>\<open>flatpak_transaction_add_install\<close> returns \<^verbatim>\<open>TRUE\<close>, leaves the
  failure in \<^verbatim>\<open>*error\<close>, and the operation for the requested ref is in the table.
\<close>

theorem dependency_failure_dropped:
  assumes "add_deps_enabled self"
    and "flatpak_dir_get_deploy_data env dir ref = None"
    and "add_deps env dir self remote ref = (False, Some failure, self1)"
  shows "\<exists>self'. flatpak_transaction_add_install env dir self (Some remote) ref subpaths =
                   Some (True, Some failure, self') \<and> refs self' ref \<noteq> None"
proof -
  let ?sp = "if subpaths = None then Some [] else subpaths"
  have pr: "proceeds env dir (Some remote) ref False remote"
    using assms(2) by (simp add: proceeds_def dir_ref_is_installed_def)
  have "op_call remote ref ?sp None True False
          \<in> set (ref_calls env dir self remote ref ?sp None False)"
    by (simp add: ref_calls_def)
  from apply_calls_contains [OF this, of self]
  have "refs (apply_calls self (ref_calls env dir self remote ref ?sp None False)) ref \<noteq> None"
    by (simp add: op_call_def)
  with add_ref_proceeds [OF pr, of self ?sp None] assms(1,3) show ?thesis
    by (simp add: flatpak_transaction_add_install_def)
qed

theorem dependency_failure_dropped_witness:
  "add_deps_enabled planner \<and>
   flatpak_dir_get_deploy_data ambiguous_runtime (user_dir []) app_X = None \<and>
   add_deps ambiguous_runtime (user_dir []) planner ''origin'' app_X =
     (False,
      Some (flatpak_fail ''The Application com.X/x86_64/stable requires the runtime org.Y/x86_64/stable which is not installed''),
      planner) \<and>
   flatpak_transaction_add_install ambiguous_runtime (user_dir []) planner (Some ''origin'') app_X None =
     Some (True,
           Some (flatpak_fail ''The Application com.X/x86_64/stable requires the runtime org.Y/x86_64/stable which is not installed''),
           planned_app_only) \<and>
   refs planned_app_only app_X = Some 0"
proof -
  have 1: "add_deps_enabled planner"
    by (simp add: scenario_defs model_defs)
  have 2: "flatpak_dir_get_deploy_data ambiguous_runtime (user_dir []) app_X = None"
    by (simp add: scenario_defs)
  have 3: "add_deps ambiguous_runtime (user_dir []) planner ''origin'' app_X =
     (False,
      Some (flatpak_fail ''The Application com.X/x86_64/stable requires the runtime org.Y/x86_64/stable which is not installed''),
      planner)"
    by (simp add: scenario_defs model_defs Let_def)
  have 4: "flatpak_transaction_add_install ambiguous_runtime (user_dir []) planner (Some ''origin'') app_X None =
     Some (True,
           Some (flatpak_fail ''The Application com.X/x86_64/stable requires the runtime org.Y/x86_64/stable which is not installed''),
           planned_app_only)"
    by (simp add: scenario_defs model_defs Let_def)
  from dependency_failure_dropped [OF 1 2 3, of None] 1 2 3 4 show ?thesis
    by (simp add: planned_app_only_def)
qed

subsection \<open>C2: the subpaths of an operation after a sequence of calls\<close>

text \<open>
  C2 as stated: after any sequence of \<^verbatim>\<open>add_op\<close> calls for one ref, the subpaths of
  its operation are unrestricted if any call passed the unrestricted empty list. It is
  false: the dependency pass records the runtime with null subpaths, and a later call
  for the same runtime with the empty list leaves the field null, since the merge
  replaces the field only when it already holds a non-empty list.
\<close>

theorem final_subpaths_counterexample:
  "subpaths_passed runtime_Y inherit_then_all = [None, Some []] \<and>
   refs (add_ops planner inherit_then_all) runtime_Y = Some 0 \<and>
   op_subpaths (heap (add_ops planner inherit_then_all) ! 0) = None \<and>
   op_subpaths (heap (add_ops planner inherit_then_all) ! 0) \<noteq> Some []"
  by (simp add: subpaths_passed_def add_ops_def more_defs scenario_defs model_defs)

text \<open>
  C2 as amended: let a sequence of \<^verbatim>\<open>add_op\<close> calls mention a ref that the table
  does not hold before. If the first of these calls, the one that creates the
  operation, passed null subpaths, the field stays null. Otherwise the field is
  unrestricted (the empty list) if any call passed the empty list, and else it is the
  list of the most recent call that passed a non-empty list; a later call with null
  subpaths changes nothing.
\<close>

theorem final_subpaths:
  assumes "wf_transaction self"
    and "refs self ref = None"
    and "subpaths_passed ref calls = first # later"
  shows "\<exists>p. refs (add_ops self calls) ref = Some p \<and>
             op_subpaths (heap (add_ops self calls) ! p) =
               (if first = None then None
                else if Some [] \<in> set (first # later) then Some []
                else last (filter (\<lambda>s. s \<noteq> None \<and> s \<noteq> Some []) (first # later)))"
proof -
  let ?cs = "map args_call calls"
  let ?t = "apply_calls self ?cs"
  have wf: "wf_transaction ?t" using assms(1) by (rule apply_calls_wf)
  from assms(3) have "filter (\<lambda>c. c_ref c = ref) ?cs \<noteq> []"
    by (auto simp: subpaths_passed_calls)
  then obtain c where "c \<in> set ?cs" "c_ref c = ref"
    by (metis (mono_tags, lifting) filter_False)
  with apply_calls_contains [of c ?cs self] obtain p where p: "refs ?t ref = Some p" by auto
  from wf_refs_Some [OF wf p] have pl: "p < length (heap ?t)" and pr: "op_ref (heap ?t ! p) = ref"
    by simp_all
  let ?op = "heap ?t ! p"
  have "?op \<in> set (foldl upsert (heap self) ?cs)"
    using pl by (simp add: apply_calls_heap [OF assms(1)])
  from foldl_upsert_elems [OF this]
  have "op_subpaths ?op = foldl merge_subpaths first later"
  proof (elim disjE bexE exE conjE)
    fix op0 assume "op0 \<in> set (heap self)"
      and "?op = foldl merge_op op0 (filter (\<lambda>c. c_ref c = op_ref op0) ?cs)"
    then have "op_ref op0 = ref" "op0 \<in> set (heap self)"
      using pr by (simp_all add: foldl_merge_op_fields)
    then have "ref \<in> op_ref ` set (heap self)" by (metis imageI)
    with wf_refs_None [OF assms(1,2)] show ?thesis by simp
  next
    fix c rest assume f: "filter (\<lambda>c. c_ref c = op_ref ?op) ?cs = c # rest"
      and eq: "?op = foldl merge_op (create_op c) rest"
    from f pr assms(3) have "c_subpaths c = first" "map c_subpaths rest = later"
      by (simp_all add: subpaths_passed_calls)
    with eq show ?thesis by (simp add: foldl_merge_op_fields)
  qed
  with p show ?thesis by (simp add: add_ops_calls merged_subpaths)
qed

theorem final_subpaths_witness:
  "wf_transaction planner \<and> refs planner locale_X = None \<and>
   subpaths_passed locale_X explicit_then_all = [Some [''/de''], None, Some [''/fr'']] \<and>
   refs (add_ops planner explicit_then_all) locale_X = Some 0 \<and>
   op_subpaths (heap (add_ops planner explicit_then_all) ! 0) = Some [''/fr'']"
proof -
  have 1: "refs planner locale_X = None"
    by (simp add: scenario_defs model_defs)
  have 2: "subpaths_passed locale_X explicit_then_all = Some [''/de''] # [None, Some [''/fr'']]"
    by (simp add: subpaths_passed_def more_defs scenario_defs)
  have 3: "refs (add_ops planner explicit_then_all) locale_X = Some 0"
    by (simp add: add_ops_def more_defs scenario_defs model_defs)
  from final_subpaths [OF wf_planner 1 2] 3
  have "op_subpaths (heap (add_ops planner explicit_then_all) ! 0) = Some [''/fr'']"
    by simp
  with wf_planner 1 2 3 show ?thesis by simp
qed

subsection \<open>C3: the already-installed check of an install request\<close>

text \<open>
  C3 as stated: a ref that is deployed in the system scope makes a user-scope
  \<^verbatim>\<open>add_install\<close> fail with \<open>AlreadyInstalled\<close>. It is false: the request for
  \<open>app_X\<close>, deployed in the system directory only, to a user-scope transaction returns
  \<^verbatim>\<open>TRUE\<close> and records the operation. The scope-aware \<^verbatim>\<open>ref_is_installed\<close> holds
  for that ref, but the precondition of an install consults \<^verbatim>\<open>dir_ref_is_installed\<close>
  on the directory of the transaction alone.
\<close>

theorem add_install_system_scope_counterexample:
  "flatpak_dir_is_user system_has_app (user_dir []) \<and>
   flatpak_dir_get_if_deployed system_has_app (flatpak_dir_get_system system_has_app) app_X \<and>
   ref_is_installed system_has_app (user_dir []) app_X \<and>
   flatpak_transaction_add_install system_has_app (user_dir []) planner (Some ''origin'') app_X None =
     Some (True, None, planned_app_only) \<and>
   refs planned_app_only app_X = Some 0"
  by (simp add: scenario_defs model_defs Let_def)

text \<open>
  C3 as amended: \<^verbatim>\<open>add_install\<close> (with a remote) fails with \<open>AlreadyInstalled\<close> and
  leaves the transaction as it was exactly when the ref has deploy data in the directory
  of the transaction itself.
\<close>

theorem add_install_already_installed:
  "flatpak_transaction_add_install env dir self (Some remote) ref subpaths =
     Some (False,
           Some (GError FLATPAK_ERROR_ALREADY_INSTALLED (pref_of ref @ '' already installed'')),
           self)
   \<longleftrightarrow> flatpak_dir_get_deploy_data env dir ref \<noteq> None"
  by (auto simp add: flatpak_transaction_add_install_def flatpak_transaction_add_ref_def
      dir_ref_is_installed_def Let_def add_related_def split: option.splits prod.splits if_splits)

theorem add_install_already_installed_witness:
  "flatpak_dir_get_deploy_data system_has_app (user_dir [(app_X, ''origin'')]) app_X \<noteq> None \<and>
   flatpak_transaction_add_install system_has_app (user_dir [(app_X, ''origin'')]) planner
     (Some ''origin'') app_X None =
     Some (False,
           Some (GError FLATPAK_ERROR_ALREADY_INSTALLED ''com.X/x86_64/stable already installed''),
           planner)"
proof -
  have 1: "flatpak_dir_get_deploy_data system_has_app (user_dir [(app_X, ''origin'')]) app_X \<noteq> None"
    by (simp add: scenario_defs)
  have 2: "pref_of app_X = ''com.X/x86_64/stable''"
    by (simp add: pref_of_def app_X_def)
  from 1 add_install_already_installed [of system_has_app "user_dir [(app_X, ''origin'')]" planner
      "''origin''" app_X None] 2
  show ?thesis by simp
qed

subsection \<open>C4: flag resolution in the executor\<close>

text \<open>
  C4: for an operation with at least one of the two flags set, the flag resolution of
  the executor leaves exactly one of \<open>install\<close> and \<open>update\<close> set; for an operation
  that entered with both, \<open>update\<close> survives exactly when the ref has deploy data in
  the directory of the transaction at that moment, and an operation with one flag is
  left as it is. The executor stores the resolved operation when it reaches it, with
  the directory as the earlier operations left it, and does not touch it again. After
  a run that did not stop at a first error, every operation of a well-formed table
  whose operations all have a flag set has exactly one flag set.
\<close>

theorem flag_resolution:
  "(op_install op \<or> op_update op \<longrightarrow>
      op_install (resolve_flags env dir op) \<noteq> op_update (resolve_flags env dir op) \<and>
      (op_install op \<and> op_update op \<longrightarrow>
         op_update (resolve_flags env dir op) = (dir_ref_is_installed env dir (op_ref op) \<noteq> None)) \<and>
      (\<not> (op_install op \<and> op_update op) \<longrightarrow> resolve_flags env dir op = op)) \<and>
   (l < length (heap self) \<and> l \<notin> set next \<longrightarrow>
      heap (run_self (run_loop env stop (l # next) self dir succeeded error failed)) ! l =
        resolve_flags env dir (heap self ! l)) \<and>
   (wf_transaction self' \<and> (\<forall>op\<in>set (heap self'). op_install op \<or> op_update op) \<and>
    (\<not> stop' \<or> run_ok (flatpak_transaction_run env self' dir' stop')) \<longrightarrow>
      (\<forall>op\<in>set (heap (run_self (flatpak_transaction_run env self' dir' stop'))).
         op_install op \<noteq> op_update op))"
proof (intro conjI impI)
  assume "op_install op \<or> op_update op"
  then show "op_install (resolve_flags env dir op) \<noteq> op_update (resolve_flags env dir op)"
    by (rule resolve_flags_one)
next
  assume "op_install op \<and> op_update op"
  then show "op_update (resolve_flags env dir op) = (dir_ref_is_installed env dir (op_ref op) \<noteq> None)"
    by (simp add: resolve_flags_def)
next
  assume "\<not> (op_install op \<and> op_update op)"
  then show "resolve_flags env dir op = op" by (simp add: resolve_flags_def)
next
  assume "l < length (heap self) \<and> l \<notin> set next"
  then have "l < length (heap self)" and "l \<notin> set next" by simp_all
  then show "heap (run_self (run_loop env stop (l # next) self dir succeeded error failed)) ! l =
        resolve_flags env dir (heap self ! l)"
    by (rule run_loop_head)
next
  assume a: "wf_transaction self' \<and> (\<forall>op\<in>set (heap self'). op_install op \<or> op_update op) \<and>
    (\<not> stop' \<or> run_ok (flatpak_transaction_run env self' dir' stop'))"
  then show "\<forall>op\<in>set (heap (run_self (flatpak_transaction_run env self' dir' stop'))).
         op_install op \<noteq> op_update op"
    by (intro run_flags) simp_all
qed

theorem flag_resolution_witness:
  "(op_install runtime_op \<or> op_update runtime_op) \<and>
   resolve_flags (install_with_runtime []) (user_dir []) runtime_op =
     runtime_op\<lparr>op_update := False\<rparr> \<and>
   resolve_flags (install_with_runtime []) (user_dir [(runtime_Y, ''origin'')]) runtime_op =
     runtime_op\<lparr>op_install := False\<rparr> \<and>
   dir_ref_is_installed (install_with_runtime []) (user_dir []) (op_ref runtime_op) = None \<and>
   0 < length (heap planned) \<and> 0 \<notin> set [1, 2 :: nat] \<and>
   heap (run_self (run_loop (install_with_runtime []) False [0, 1, 2] planned (user_dir [])
     True None [])) ! 0 = runtime_op\<lparr>op_update := False\<rparr> \<and>
   wf_transaction planned \<and>
   list_all (\<lambda>op. op_install op \<or> op_update op) (heap planned) \<and>
   list_all (\<lambda>op. op_install op \<noteq> op_update op)
     (heap (run_self (flatpak_transaction_run (install_with_runtime []) planned (user_dir [])
        False)))"
proof -
  let ?E = "install_with_runtime []"
  have 1: "op_install runtime_op \<or> op_update runtime_op"
    by (simp add: scenario_defs)
  have 2: "resolve_flags ?E (user_dir []) runtime_op = runtime_op\<lparr>op_update := False\<rparr>"
    by (simp add: scenario_defs model_defs)
  have 3: "resolve_flags ?E (user_dir [(runtime_Y, ''origin'')]) runtime_op =
             runtime_op\<lparr>op_install := False\<rparr>"
    by (simp add: scenario_defs model_defs)
  have 4: "dir_ref_is_installed ?E (user_dir []) (op_ref runtime_op) = None"
    by (simp add: scenario_defs model_defs)
  have 5: "0 < length (heap planned)" "0 \<notin> set [1, 2 :: nat]" "heap planned ! 0 = runtime_op"
    by (simp_all add: scenario_defs model_defs)
  have 6: "\<forall>op\<in>set (heap planned). op_install op \<or> op_update op"
    by (simp add: scenario_defs model_defs)
  note fr = flag_resolution [of runtime_op ?E "user_dir []" 0 planned "[1, 2]" False True None "[]"
      planned False "user_dir []"]
  from fr 5 2 have 7: "heap (run_self (run_loop ?E False [0, 1, 2] planned (user_dir [])
     True None [])) ! 0 = runtime_op\<lparr>op_update := False\<rparr>"
    by (simp del: run_loop.simps)
  from fr wf_planned 6 have 8: "\<forall>op\<in>set (heap (run_self (flatpak_transaction_run ?E planned
      (user_dir []) False))). op_install op \<noteq> op_update op"
    by blast
  from 1 2 3 4 5 6 7 8 wf_planned show ?thesis
    by (simp add: list_all_iff del: run_loop.simps)
qed

subsection \<open>C5: updates of a disabled or absent ref\<close>

text \<open>
  C5: \<^verbatim>\<open>add_update\<close> on a deployed ref whose origin remote is disabled returns
  \<^verbatim>\<open>TRUE\<close> with no error and leaves the transaction unchanged; \<^verbatim>\<open>add_update\<close> on
  a ref that is not deployed fails with \<open>NotInstalled\<close> (and leaves the transaction
  unchanged as well).
\<close>

theorem add_update_disabled_or_not_installed:
  "(flatpak_dir_get_deploy_data env dir ref = Some deploy \<and>
     flatpak_dir_get_remote_disabled env dir (deploy_origin deploy) \<longrightarrow>
     flatpak_transaction_add_update env dir self ref subpaths commit = Some (True, None, self)) \<and>
   (flatpak_dir_get_deploy_data env dir' ref' = None \<longrightarrow>
     flatpak_transaction_add_update env dir' self' ref' subpaths' commit' =
       Some (False,
             Some (GError FLATPAK_ERROR_NOT_INSTALLED (pref_of ref' @ '' not installed'')),
             self'))"
  by (simp add: flatpak_transaction_add_update_def flatpak_transaction_add_ref_def
      dir_ref_is_installed_def)

theorem add_update_disabled_or_not_installed_witness:
  "flatpak_dir_get_deploy_data origin_disabled (user_dir [(app_X, ''origin'')]) app_X =
     Some \<lparr>deploy_origin = ''origin'', deploy_commit = ''0123456789abcdef''\<rparr> \<and>
   flatpak_dir_get_remote_disabled origin_disabled (user_dir [(app_X, ''origin'')]) ''origin'' \<and>
   flatpak_transaction_add_update origin_disabled (user_dir [(app_X, ''origin'')]) planner
     app_X None None = Some (True, None, planner) \<and>
   flatpak_dir_get_deploy_data origin_disabled (user_dir []) app_X = None \<and>
   flatpak_transaction_add_update origin_disabled (user_dir []) planned app_X None None =
     Some (False, Some (GError FLATPAK_ERROR_NOT_INSTALLED ''com.X/x86_64/stable not installed''),
           planned)"
proof -
  have 1: "flatpak_dir_get_deploy_data origin_disabled (user_dir [(app_X, ''origin'')]) app_X =
     Some \<lparr>deploy_origin = ''origin'', deploy_commit = ''0123456789abcdef''\<rparr>"
    by (simp add: scenario_defs)
  have 2: "flatpak_dir_get_remote_disabled origin_disabled (user_dir [(app_X, ''origin'')])
             (deploy_origin \<lparr>deploy_origin = ''origin'', deploy_commit = ''0123456789abcdef''\<rparr>)"
    by (simp add: scenario_defs)
  have 3: "flatpak_dir_get_deploy_data origin_disabled (user_dir []) app_X = None"
    by (simp add: scenario_defs)
  have 4: "pref_of app_X = ''com.X/x86_64/stable''"
    by (simp add: pref_of_def app_X_def)
  from add_update_disabled_or_not_installed [of origin_disabled
      "user_dir [(app_X, ''origin'')]" app_X
      "\<lparr>deploy_origin = ''origin'', deploy_commit = ''0123456789abcdef''\<rparr>"
      planner None None "user_dir []" app_X planned None None] 1 2 3 4
  show ?thesis by simp
qed

subsection \<open>C6: dependencies come first\<close>




subsection \<open>C7: failures of non-fatal operations\<close>

text \<open>
  C7: if every operation whose call of the deploy engine failed during a run (after
  the recovery of an update that had nothing to do) has \<open>non_fatal\<close> set, the run
  returns \<^verbatim>\<open>TRUE\<close> and stores no error, whatever \<open>stop_on_first_error\<close> is.
\<close>

theorem non_fatal_isolation:
  assumes "wf_transaction self"
    and "\<forall>p\<in>set (run_failed (flatpak_transaction_run env self dir stop_on_first_error)).
           op_non_fatal (heap self ! p)"
  shows "run_ok (flatpak_transaction_run env self dir stop_on_first_error) \<and>
         run_error (flatpak_transaction_run env self dir stop_on_first_error) = None"
  using assms by (rule run_nonfatal)

theorem non_fatal_isolation_witness:
  "wf_transaction planned \<and>
   run_failed (flatpak_transaction_run (install_with_runtime [locale_X]) planned (user_dir []) True)
     = [2] \<and>
   op_non_fatal (heap planned ! 2) \<and>
   run_ok (flatpak_transaction_run (install_with_runtime [locale_X]) planned (user_dir []) True) \<and>
   run_error (flatpak_transaction_run (install_with_runtime [locale_X]) planned (user_dir []) True)
     = None"
proof -
  have 1: "op_non_fatal (heap planned ! 2)"
    by (simp add: scenario_defs model_defs)
  then have "\<forall>p\<in>set (run_failed (flatpak_transaction_run (install_with_runtime [locale_X])
      planned (user_dir []) True)). op_non_fatal (heap planned ! p)"
    by (simp add: run_planned_failed)
  from non_fatal_isolation [OF wf_planned this] wf_planned 1 show ?thesis
    by (simp add: run_planned_failed)
qed

subsection \<open>C8: the same install request twice\<close>

text \<open>
  C8: let an install request for a ref without deploy data succeed on a well-formed
  transaction. Submitting it again, with the same collaborators, returns \<^verbatim>\<open>TRUE\<close>
  and leaves the transaction exactly as the first call left it, so no field of any
  operation changes; the call of \<^verbatim>\<open>add_op\<close> for the ref returns the address that
  the table already holds for it and changes none of the remote, ref, commit, install
  and update fields of that operation.
\<close>

theorem install_twice_idempotent:
  assumes "wf_transaction self"
    and "flatpak_dir_get_deploy_data env dir ref = None"
    and "flatpak_transaction_add_install env dir self (Some remote) ref subpaths =
           Some (ok, error, self1)"
  shows "ok \<and>
         (\<exists>error2. flatpak_transaction_add_install env dir self1 (Some remote) ref subpaths =
                      Some (True, error2, self1)) \<and>
         (\<exists>p self2. refs self1 ref = Some p \<and>
            flatpak_transaction_add_op self1 remote ref
              (if subpaths = None then Some [] else subpaths) None True False = (p, self2) \<and>
            op_remote (heap self2 ! p) = op_remote (heap self1 ! p) \<and>
            op_ref (heap self2 ! p) = op_ref (heap self1 ! p) \<and>
            op_commit (heap self2 ! p) = op_commit (heap self1 ! p) \<and>
            op_install (heap self2 ! p) = op_install (heap self1 ! p) \<and>
            op_update (heap self2 ! p) = op_update (heap self1 ! p))"
proof -
  let ?sp = "if subpaths = None then Some [] else subpaths"
  have pr: "proceeds env dir (Some remote) ref False remote"
    using assms(2) by (simp add: proceeds_def dir_ref_is_installed_def)
  have first: "flatpak_transaction_add_ref env dir self (Some remote) ref ?sp None False =
                 Some (ok, error, self1)"
    using assms(3) by (simp add: flatpak_transaction_add_install_def)
  from add_ref_proceeds [OF pr, of self ?sp None] first
  have ok: "ok" and s1: "self1 = apply_calls self (ref_calls env dir self remote ref ?sp None False)"
    by simp_all
  have "apply_calls self1 (ref_calls env dir self1 remote ref ?sp None False) = self1"
    using assms(1) s1 by (rule ref_calls_second)
  with add_ref_proceeds [OF pr, of self1 ?sp None]
  have second: "\<exists>error2. flatpak_transaction_add_install env dir self1 (Some remote) ref subpaths =
                      Some (True, error2, self1)"
    by (simp add: flatpak_transaction_add_install_def)
  have "op_call remote ref ?sp None True False
          \<in> set (ref_calls env dir self remote ref ?sp None False)"
    by (simp add: ref_calls_def)
  from apply_calls_contains [OF this, of self] obtain p where p: "refs self1 ref = Some p"
    unfolding s1 by (auto simp: op_call_def)
  have wf1: "wf_transaction self1" unfolding s1 using assms(1) by (rule apply_calls_wf)
  from wf_refs_Some [OF wf1 p] have "p < length (heap self1)" by simp
  then have "\<exists>self2. flatpak_transaction_add_op self1 remote ref ?sp None True False = (p, self2) \<and>
            op_remote (heap self2 ! p) = op_remote (heap self1 ! p) \<and>
            op_ref (heap self2 ! p) = op_ref (heap self1 ! p) \<and>
            op_commit (heap self2 ! p) = op_commit (heap self1 ! p) \<and>
            op_install (heap self2 ! p) = op_install (heap self1 ! p) \<and>
            op_update (heap self2 ! p) = op_update (heap self1 ! p)"
    by (simp add: add_op_existing [OF p])
  with ok second p show ?thesis by blast
qed

theorem install_twice_idempotent_witness:
  "wf_transaction planner \<and>
   flatpak_dir_get_deploy_data (install_with_runtime []) (user_dir []) app_X = None \<and>
   flatpak_transaction_add_install (install_with_runtime []) (user_dir []) planner
     (Some ''origin'') app_X None = Some (True, None, planned) \<and>
   flatpak_transaction_add_install (install_with_runtime []) (user_dir []) planned
     (Some ''origin'') app_X None = Some (True, None, planned) \<and>
   refs planned app_X = Some 1 \<and>
   flatpak_transaction_add_op planned ''origin'' app_X (Some []) None True False = (1, planned)"
proof -
  have 1: "flatpak_dir_get_deploy_data (install_with_runtime []) (user_dir []) app_X = None"
    by (simp add: scenario_defs)
  have 2: "flatpak_transaction_add_op planned ''origin'' app_X (Some []) None True False =
             (1, planned)"
    by (simp add: scenario_defs model_defs)
  have 3: "refs planned app_X = Some 1"
    by (simp add: scenario_defs model_defs)
  from install_twice_idempotent [OF wf_planner 1 install_X_planned [of "[]"]]
  have "\<exists>error2. flatpak_transaction_add_install (install_with_runtime []) (user_dir []) planned
     (Some ''origin'') app_X None = Some (True, error2, planned)"
    by blast
  moreover have "fst (snd (the (flatpak_transaction_add_install (install_with_runtime [])
      (user_dir []) planned (Some ''origin'') app_X None))) = None"
    by (simp add: scenario_defs model_defs Let_def)
  ultimately have "flatpak_transaction_add_install (install_with_runtime []) (user_dir []) planned
     (Some ''origin'') app_X None = Some (True, None, planned)"
    by auto
  with wf_planner 1 2 3 install_X_planned [of "[]"] show ?thesis by simp
qed

subsection \<open>C9: the related pass downgrades an existing operation\<close>

text \<open>
  C9: after a related pass that found candidates, the operation of every candidate
  with \<open>download\<close> set is in the list of the executor and has \<open>non_fatal\<close> set. If
  the table held an operation for that ref before, it is the same object, changed in
  place: only its subpaths may differ and \<open>non_fatal\<close> is now set. A run in which no
  other operation fails returns \<^verbatim>\<open>TRUE\<close> with no error.
\<close>

theorem related_ops_non_fatal:
  assumes "wf_transaction self"
    and "add_related_enabled self"
    and "(if no_pull self then flatpak_dir_find_local_related env dir ref remote
          else flatpak_dir_find_remote_related env dir ref remote) = Some related"
    and "rel \<in> set related" and "rel_download rel"
    and "add_related env dir self remote ref = (ok, self')"
  shows "\<exists>p. refs self' (rel_ref rel) = Some p \<and> p \<in> set (ops self') \<and>
             op_non_fatal (heap self' ! p) \<and>
             (\<forall>q. refs self (rel_ref rel) = Some q \<longrightarrow>
                  p = q \<and> heap self' ! p =
                    (heap self ! q)\<lparr>op_subpaths := op_subpaths (heap self' ! p),
                                     op_non_fatal := True\<rparr>) \<and>
             (\<forall>dir' stop. set (run_failed (flatpak_transaction_run env self' dir' stop)) \<subseteq> {p} \<longrightarrow>
                  run_ok (flatpak_transaction_run env self' dir' stop) \<and>
                  run_error (flatpak_transaction_run env self' dir' stop) = None)"
proof -
  let ?cs = "related_calls remote related"
  let ?r = "rel_ref rel"
  let ?c = "\<lparr>c_remote = remote, c_ref = ?r, c_subpaths = rel_subpaths rel,
             c_commit = None, c_install = True, c_update = True, c_non_fatal = True\<rparr>"
  have all_nf: "\<forall>c\<in>set ?cs. c_non_fatal c" by (auto simp: related_calls_def)
  have c: "?c \<in> set ?cs" using assms(4,5) by (auto simp: related_calls_def)
  have s': "self' = apply_calls self ?cs"
    using assms(2,3,6) by (simp add: add_related_calls add_related_calls_def)
  have wf': "wf_transaction self'" unfolding s' using assms(1) by (rule apply_calls_wf)
  from apply_calls_contains [OF c, of self] obtain p where p: "refs self' ?r = Some p"
    unfolding s' by auto
  from wf_refs_Some [OF wf' p] have pl: "p < length (heap self')" and pr: "op_ref (heap self' ! p) = ?r"
    by simp_all
  have ops: "p \<in> set (ops self')" using wf' pl by (simp add: wf_ops_set)
  let ?op = "heap self' ! p"
  have "?op \<in> set (foldl upsert (heap self) ?cs)"
    using pl unfolding s' by (simp add: apply_calls_heap [OF assms(1)])
  from foldl_upsert_elems [OF this] have nf: "op_non_fatal ?op"
  proof (elim disjE bexE exE conjE)
    fix op0 assume eq: "?op = foldl merge_op op0 (filter (\<lambda>c. c_ref c = op_ref op0) ?cs)"
    then have r0: "op_ref op0 = ?r" using pr by (simp add: foldl_merge_op_fields)
    have "?c \<in> set (filter (\<lambda>c. c_ref c = ?r) ?cs)" using c by simp
    then have "\<exists>c\<in>set (filter (\<lambda>c. c_ref c = ?r) ?cs). c_non_fatal c"
      by (intro bexI [of _ ?c]) simp_all
    then have "op_non_fatal (foldl merge_op op0 (filter (\<lambda>c. c_ref c = ?r) ?cs))"
      by (simp only: foldl_merge_op_fields simp_thms)
    with eq r0 show ?thesis by simp
  next
    fix c1 rest assume f: "filter (\<lambda>c. c_ref c = op_ref ?op) ?cs = c1 # rest"
      and eq: "?op = foldl merge_op (create_op c1) rest"
    have "c1 \<in> set (filter (\<lambda>c. c_ref c = op_ref ?op) ?cs)" unfolding f by simp
    with all_nf have "c_non_fatal c1" by simp
    then have "op_non_fatal (foldl merge_op (create_op c1) rest)"
      by (simp add: foldl_merge_op_fields create_op_def)
    with eq show ?thesis by simp
  qed
  have inplace: "p = q \<and> ?op = (heap self ! q)\<lparr>op_subpaths := op_subpaths ?op, op_non_fatal := True\<rparr>"
    if q: "refs self ?r = Some q" for q
  proof -
    from q have "refs self' ?r = Some q" unfolding s' by (rule apply_calls_refs_mono)
    with p have pq: "p = q" by simp
    from wf_refs_Some [OF assms(1) q] have "q < length (heap self)" by simp
    from apply_calls_old_cell [OF assms(1) this, of ?cs]
    have "?op = foldl merge_op (heap self ! q)
                  (filter (\<lambda>c. c_ref c = op_ref (heap self ! q)) ?cs)"
      unfolding s' pq .
    then have "?op = (heap self ! q)\<lparr>op_subpaths := op_subpaths ?op, op_non_fatal := op_non_fatal ?op\<rparr>"
      by (intro FlatpakTransactionOp.equality) (simp_all add: foldl_merge_op_fields)
    with nf pq show ?thesis by simp
  qed
  have run: "run_ok (flatpak_transaction_run env self' dir' stop) \<and>
             run_error (flatpak_transaction_run env self' dir' stop) = None"
    if "set (run_failed (flatpak_transaction_run env self' dir' stop)) \<subseteq> {p}" for dir' stop
  proof (rule run_nonfatal [OF wf'])
    show "\<forall>q\<in>set (run_failed (flatpak_transaction_run env self' dir' stop)).
            op_non_fatal (heap self' ! q)"
      using that nf by auto
  qed
  from p ops nf inplace run show ?thesis by blast
qed

theorem related_ops_non_fatal_witness:
  "wf_transaction planned_locale_direct \<and>
   add_related_enabled planned_locale_direct \<and>
   flatpak_dir_find_remote_related (install_with_runtime [locale_X]) (user_dir []) app_X ''origin'' =
     Some [locale_rel] \<and>
   rel_download locale_rel \<and>
   refs planned_locale_direct (rel_ref locale_rel) = Some 0 \<and>
   \<not> op_non_fatal (heap planned_locale_direct ! 0) \<and>
   add_related (install_with_runtime [locale_X]) (user_dir []) planned_locale_direct ''origin'' app_X =
     (True, planned_locale_related) \<and>
   op_non_fatal (heap planned_locale_related ! 0) \<and>
   run_failed (flatpak_transaction_run (install_with_runtime [locale_X]) planned_locale_related
     (user_dir []) True) = [0] \<and>
   run_ok (flatpak_transaction_run (install_with_runtime [locale_X]) planned_locale_related
     (user_dir []) True) \<and>
   \<not> run_ok (flatpak_transaction_run (install_with_runtime [locale_X]) planned_locale_direct
     (user_dir []) True)"
proof -
  let ?E = "install_with_runtime [locale_X]"
  have 1: "add_related_enabled planned_locale_direct"
    by (simp add: more_defs scenario_defs model_defs)
  have 2: "(if no_pull planned_locale_direct
            then flatpak_dir_find_local_related ?E (user_dir []) app_X ''origin''
            else flatpak_dir_find_remote_related ?E (user_dir []) app_X ''origin'') =
           Some [locale_rel]"
    by (simp add: more_defs scenario_defs model_defs)
  have 3: "locale_rel \<in> set [locale_rel]" "rel_download locale_rel"
    by (simp_all add: scenario_defs)
  have 4: "add_related ?E (user_dir []) planned_locale_direct ''origin'' app_X =
             (True, planned_locale_related)"
    by (simp add: more_defs scenario_defs model_defs)
  have 5: "refs planned_locale_related (rel_ref locale_rel) = Some 0"
    "refs planned_locale_direct (rel_ref locale_rel) = Some 0"
    "\<not> op_non_fatal (heap planned_locale_direct ! 0)"
    by (simp_all add: more_defs scenario_defs model_defs)
  have 6: "run_failed (flatpak_transaction_run ?E planned_locale_related (user_dir []) True) = [0]"
    by (simp add: more_defs scenario_defs model_defs Let_def)
  have 7: "\<not> run_ok (flatpak_transaction_run ?E planned_locale_direct (user_dir []) True)"
    by (simp add: more_defs scenario_defs model_defs Let_def)
  have 8: "flatpak_dir_find_remote_related ?E (user_dir []) app_X ''origin'' = Some [locale_rel]"
    by (simp add: scenario_defs)
  from related_ops_non_fatal [OF wf_planned_locale_direct 1 2 3 4] 5(1)
  have "op_non_fatal (heap planned_locale_related ! 0) \<and>
        (set (run_failed (flatpak_transaction_run ?E planned_locale_related (user_dir []) True))
           \<subseteq> {0} \<longrightarrow>
         run_ok (flatpak_transaction_run ?E planned_locale_related (user_dir []) True))"
    by auto
  with 6 wf_planned_locale_direct 1 3 4 5 7 8 show ?thesis by simp
qed

subsection \<open>C10: subpaths of update and install requests\<close>



end
